theory Spec2Isabelle
  imports Main "HOL-Library.AList" "HOL-Library.Multiset" Complex_Main
begin

section \<open>Python values, indices and exceptions\<close>

text \<open>
  An index as \<open>History.__getitem__\<close> receives it inside a query tuple: an integer, a
  slice \<open>a:b\<close> (step left at its default), a single column name, or a tuple (or list)
  of column names.
\<close>

datatype index =
    IInt int
  | ISlice "int option" "int option"
  | IKey string
  | IKeys "string list"

text \<open>The exceptions the modelled code raises. \<open>KeyError\<close> carries the missing key.\<close>

datatype exc =
    KeyError index
  | IndexError
  | TypeError
  | ValueError string
  | AssertionError
  | AttributeError
  | StopIteration
  | OverflowError
  | KeyboardInterrupt

text \<open>
  The values a history holds and a query returns. A dict keeps its items in insertion
  order (an association list with distinct keys). \<open>None\<close>, booleans and numbers
  (losses, sizes, epoch numbers) can be neither indexed nor iterated. \<open>Missing e\<close> is an instance of the local
  class \<open>__missingno\<close>, created only inside a query.
\<close>

datatype val =
    VNone
  | VBool bool
  | Num int
  | Str string
  | VList "val list"
  | VTuple "val list"
  | VDict "(string \<times> val) list"
  | Missing exc

fun is_list_like :: "val \<Rightarrow> bool" where
  "is_list_like (VList _) = True"
| "is_list_like _ = False"

fun is_missingno :: "val \<Rightarrow> bool" where
  "is_missingno (Missing _) = True"
| "is_missingno _ = False"

text \<open>A list comprehension over calls that may raise: the first exception wins.\<close>

fun collect :: "(exc + 'a) list \<Rightarrow> exc + 'a list" where
  "collect [] = Inr []"
| "collect (r # rs) =
     (case r of
        Inl e \<Rightarrow> Inl e
      | Inr v \<Rightarrow> (case collect rs of Inl e \<Rightarrow> Inl e | Inr vs \<Rightarrow> Inr (v # vs)))"

subsection \<open>Indexing of the built-in containers\<close>

text \<open>Python's \<open>xs[i]\<close> on a list or tuple: a negative index counts from the end.\<close>

definition seq_getitem :: "'a list \<Rightarrow> int \<Rightarrow> exc + 'a" where
  "seq_getitem xs i =
     (if 0 \<le> i \<and> i < int (length xs) then Inr (xs ! nat i)
      else if i < 0 \<and> - int (length xs) \<le> i then Inr (xs ! nat (int (length xs) + i))
      else Inl IndexError)"

text \<open>Python's \<open>xs[a:b]\<close>: each bound is shifted when negative and clamped to the sequence.\<close>

definition slice_bound :: "nat \<Rightarrow> int \<Rightarrow> nat" where
  "slice_bound n i =
     (let j = (if i < 0 then int n + i else i)
      in if j < 0 then 0 else if int n < j then n else nat j)"

definition seq_slice :: "'a list \<Rightarrow> int option \<Rightarrow> int option \<Rightarrow> 'a list" where
  "seq_slice xs a b =
     (let n = length xs;
          lo = (case a of None \<Rightarrow> 0 | Some i \<Rightarrow> slice_bound n i);
          hi = (case b of None \<Rightarrow> n | Some i \<Rightarrow> slice_bound n i)
      in take (hi - lo) (drop lo xs))"

text \<open>
  \<open>l[idx]\<close> as \<open>partial_index\<close> evaluates it in its \<open>try\<close> block. A dict has string
  keys, so an integer is a missing key; a slice is unhashable.
\<close>

fun py_getitem :: "val \<Rightarrow> index \<Rightarrow> exc + val" where
  "py_getitem (VList xs) (IInt i) = seq_getitem xs i"
| "py_getitem (VList xs) (ISlice a b) = Inr (VList (seq_slice xs a b))"
| "py_getitem (VTuple xs) (IInt i) = seq_getitem xs i"
| "py_getitem (VTuple xs) (ISlice a b) = Inr (VTuple (seq_slice xs a b))"
| "py_getitem (VDict d) (IKey k) =
     (case map_of d k of None \<Rightarrow> Inl (KeyError (IKey k)) | Some v \<Rightarrow> Inr v)"
| "py_getitem (VDict d) (IInt i) = Inl (KeyError (IInt i))"
| "py_getitem (Str s) (IInt i) =
     (case seq_getitem s i of Inl e \<Rightarrow> Inl e | Inr c \<Rightarrow> Inr (Str [c]))"
| "py_getitem (Str s) (ISlice a b) = Inr (Str (seq_slice s a b))"
| "py_getitem _ _ = Inl TypeError"

section \<open>History\<close>

subsection \<open>Writing\<close>

text \<open>A history is the list of its epoch rows.\<close>

type_synonym history = "val list"

definition new_epoch :: "history \<Rightarrow> history" where
  "new_epoch h = h @ [VDict [(''batches'', VList [])]]"

text \<open>\<open>d[attr] = value\<close> on a dict: an existing key keeps its place.\<close>

definition dict_set :: "(string \<times> val) list \<Rightarrow> string \<Rightarrow> val \<Rightarrow> (string \<times> val) list" where
  "dict_set d k v = AList.update k v d"

text \<open>\<open>x[attr] = value\<close> on any value: only a dict accepts a string key.\<close>

fun py_setitem :: "val \<Rightarrow> string \<Rightarrow> val \<Rightarrow> exc + val" where
  "py_setitem (VDict d) k v = Inr (VDict (dict_set d k v))"
| "py_setitem _ k v = Inl TypeError"

text \<open>\<open>x.append(v)\<close>: only a list has the method.\<close>

fun py_append :: "val \<Rightarrow> val \<Rightarrow> exc + val" where
  "py_append (VList xs) v = Inr (VList (xs @ [v]))"
| "py_append _ v = Inl AttributeError"

text \<open>
  The writers change an object reached through \<open>self[-1]\<close>; the model rebuilds the path to
  it. \<open>with_last xs f\<close> applies \<open>f\<close> to \<open>xs[-1]\<close> and stores the result back.
\<close>

definition with_last :: "val list \<Rightarrow> (val \<Rightarrow> exc + val) \<Rightarrow> exc + val list" where
  "with_last xs f =
     (if xs = [] then Inl IndexError
      else case f (last xs) of Inl e \<Rightarrow> Inl e | Inr v \<Rightarrow> Inr (butlast xs @ [v]))"

text \<open>\<open>with_key x k f\<close> applies \<open>f\<close> to \<open>x[k]\<close> and stores the result back under \<open>k\<close>.\<close>

definition with_key :: "val \<Rightarrow> string \<Rightarrow> (val \<Rightarrow> exc + val) \<Rightarrow> exc + val" where
  "with_key x k f =
     (case py_getitem x (IKey k) of
        Inl e \<Rightarrow> Inl e
      | Inr b \<Rightarrow> (case f b of Inl e \<Rightarrow> Inl e | Inr b' \<Rightarrow> py_setitem x k b'))"

text \<open>
  The same for \<open>x[-1]\<close> on any value. A list or a tuple gives its last member, which
  \<open>f\<close> changes in place; a dict has no key \<open>-1\<close>; a string gives its last
  character and is itself left as it was; nothing else can be indexed.
\<close>

fun with_last_val :: "val \<Rightarrow> (val \<Rightarrow> exc + val) \<Rightarrow> exc + val" where
  "with_last_val (VList xs) f =
     (case with_last xs f of Inl e \<Rightarrow> Inl e | Inr ys \<Rightarrow> Inr (VList ys))"
| "with_last_val (VTuple xs) f =
     (case with_last xs f of Inl e \<Rightarrow> Inl e | Inr ys \<Rightarrow> Inr (VTuple ys))"
| "with_last_val (VDict d) f = Inl (KeyError (IInt (- 1)))"
| "with_last_val (Str s) f =
     (if s = [] then Inl IndexError
      else case f (Str [last s]) of Inl e \<Rightarrow> Inl e | Inr c \<Rightarrow> Inr (Str s))"
| "with_last_val x f = Inl TypeError"

definition new_batch :: "history \<Rightarrow> exc + history" where
  "new_batch h = with_last h (\<lambda>ep. with_key ep ''batches'' (\<lambda>bs. py_append bs (VDict [])))"

text \<open>\<open>History.record\<close> (\<open>record\<close> is a keyword here).\<close>

definition record_epoch :: "history \<Rightarrow> string \<Rightarrow> val \<Rightarrow> exc + history" where
  "record_epoch h attr v =
     (if \<not> length h > 0 then Inl AssertionError
      else with_last h (\<lambda>ep. py_setitem ep attr v))"

definition record_batch :: "history \<Rightarrow> string \<Rightarrow> val \<Rightarrow> exc + history" where
  "record_batch h attr v =
     with_last h (\<lambda>ep. with_key ep ''batches''
       (\<lambda>bs. with_last_val bs (\<lambda>b. py_setitem b attr v)))"

subsection \<open>Querying\<close>

text \<open>\<open>incomplete_mapper\<close>: the first missing member of a tuple stands for the tuple.\<close>

definition incomplete_mapper :: "val list \<Rightarrow> val" where
  "incomplete_mapper x = (case filter is_missingno x of [] \<Rightarrow> VTuple x | m # _ \<Rightarrow> m)"

text \<open>
  \<open>zip(*zz)\<close> over lists: as many tuples as the shortest list has members, none when
  there is no list at all.
\<close>

definition zip_star :: "'a list list \<Rightarrow> 'a list list" where
  "zip_star zz =
     (if zz = [] then []
      else map (\<lambda>i. map (\<lambda>z. z ! i) zz) [0..<Min (set (map length zz))])"

text \<open>
  The members \<open>zip\<close> iterates over: a dict gives its keys, a string its characters; a
  number or a missing marker is not iterable.
\<close>

fun py_iter :: "val \<Rightarrow> exc + val list" where
  "py_iter (VList xs) = Inr xs"
| "py_iter (VTuple xs) = Inr xs"
| "py_iter (VDict d) = Inr (map (\<lambda>(k, v). Str k) d)"
| "py_iter (Str s) = Inr (map (\<lambda>c. Str [c]) s)"
| "py_iter _ = Inl TypeError"

definition needs_unrolling :: "val \<Rightarrow> bool" where
  "needs_unrolling l = (case l of VList (x # _) \<Rightarrow> is_list_like x | _ \<Rightarrow> False)"

definition needs_indirection :: "val \<Rightarrow> index \<Rightarrow> bool" where
  "needs_indirection l idx = (is_list_like l \<and> (case idx of IKey _ \<Rightarrow> True | _ \<Rightarrow> False))"

fun members :: "val \<Rightarrow> val list" where
  "members (VList xs) = xs"
| "members _ = []"

function partial_index :: "val \<Rightarrow> index \<Rightarrow> exc + val" where
  "partial_index l idx =
     (if needs_unrolling l \<or> needs_indirection l idx then
        (case collect (map (\<lambda>n. partial_index n idx) (members l)) of
           Inl e \<Rightarrow> Inl e
         | Inr vs \<Rightarrow> Inr (VList vs))
      else case idx of
        IKeys ks \<Rightarrow>
          (case collect (map (\<lambda>n. partial_index l (IKey n)) ks) of
             Inl e \<Rightarrow> Inl e
           | Inr zz \<Rightarrow>
               if is_list_like l then
                 (case collect (map py_iter zz) of
                    Inl e \<Rightarrow> Inl e
                  | Inr cols \<Rightarrow> Inr (VList (map incomplete_mapper (zip_star cols))))
               else Inr (incomplete_mapper zz))
      | _ \<Rightarrow>
          (case py_getitem l idx of
             Inl (KeyError k) \<Rightarrow> Inr (Missing (KeyError k))
           | Inl e \<Rightarrow> Inl e
           | Inr v \<Rightarrow> Inr v))"
  by pat_completeness auto

termination
proof (relation "measure (\<lambda>(l, idx). 2 * size l + (case idx of IKeys _ \<Rightarrow> 1 | _ \<Rightarrow> 0))")
  show "wf (measure (\<lambda>(l, idx). 2 * size l + (case idx of IKeys _ \<Rightarrow> 1 | _ \<Rightarrow> 0)))"
    by simp
next
  fix l :: val and idx :: index and n :: val
  assume "needs_unrolling l \<or> needs_indirection l idx" and "n \<in> set (members l)"
  then obtain xs where l: "l = VList xs" and n: "n \<in> set xs"
    by (cases l) auto
  from n have "size n \<le> size_list size xs"
    by (rule size_list_estimation') simp
  with l show "((n, idx), (l, idx))
      \<in> measure (\<lambda>(l, idx). 2 * size l + (case idx of IKeys _ \<Rightarrow> 1 | _ \<Rightarrow> 0))"
    by simp
next
  fix l :: val and idx :: index and ks :: "string list" and n :: string
  assume "idx = IKeys ks"
  then show "((l, IKey n), (l, idx))
      \<in> measure (\<lambda>(l, idx). 2 * size l + (case idx of IKeys _ \<Rightarrow> 1 | _ \<Rightarrow> 0))"
    by simp
qed

fun filter_missing :: "val \<Rightarrow> val" where
  "filter_missing (VList x) =
     (let children = map filter_missing x;
          filtered = filter (\<lambda>c. \<not> is_missingno c) children
      in if length children > 0 \<and> length filtered = 0
         then hd (filter is_missingno children)
         else VList filtered)"
| "filter_missing x = x"

text \<open>The loop over the parts of a query tuple.\<close>

fun query_parts :: "val \<Rightarrow> index list \<Rightarrow> exc + val" where
  "query_parts x [] = Inr x"
| "query_parts x (part # parts) =
     (case partial_index x part of
        Inl e \<Rightarrow> Inl e
      | Inr x_dirty \<Rightarrow>
          (case filter_missing x_dirty of
             Missing e \<Rightarrow> Inl e
           | x' \<Rightarrow> query_parts x' parts))"

text \<open>
  What \<open>history[i]\<close> is given: an integer, a slice, a tuple of parts, or anything else
  (a string, say).
\<close>

datatype query = QInt int | QSlice "int option" "int option" | QTuple "index list" | QOther

fun getitem :: "history \<Rightarrow> query \<Rightarrow> exc + val" where
  "getitem h (QInt i) = seq_getitem h i"
| "getitem h (QSlice a b) = Inr (VList (seq_slice h a b))"
| "getitem h (QTuple i) = query_parts (VList h) i"
| "getitem h QOther =
     Inl (ValueError ''Invalid parameter type passed to index. Pass string, int or tuple.'')"

declare partial_index.simps [simp del]

subsection \<open>The shape of a history\<close>

text \<open>
  A value that holds no missing marker anywhere. The writers are given such values: the
  class of the marker is local to \<open>__getitem__\<close>.
\<close>

fun clean :: "val \<Rightarrow> bool" where
  "clean (Missing e) = False"
| "clean (VList xs) = list_all clean xs"
| "clean (VTuple xs) = list_all clean xs"
| "clean (VDict d) = list_all clean (map snd d)"
| "clean _ = True"

text \<open>A row, of an epoch or of a batch: a dict of such values.\<close>

definition is_row :: "val \<Rightarrow> bool" where
  "is_row r = (case r of VDict d \<Rightarrow> clean r | _ \<Rightarrow> False)"

subsection \<open>What a query with a column selector is expected to return\<close>

text \<open>
  The definitions of this part are not translations of code. They state the documented
  behaviour of a query (only those epochs or batches are chosen that contain the named
  columns, and a \<open>KeyError\<close> is raised if this set is empty), and \<open>getitem\<close> is
  compared with them below. \<open>columns\<close> are the keys a selector names.
\<close>

fun columns :: "index \<Rightarrow> string list" where
  "columns (IKey k) = [k]"
| "columns (IKeys ks) = ks"
| "columns _ = []"

text \<open>The fields of a row, and whether a row has every named key.\<close>

definition row_fields :: "val \<Rightarrow> string \<Rightarrow> val option" where
  "row_fields r = (case r of VDict d \<Rightarrow> map_of d | _ \<Rightarrow> Map.empty)"

definition has_columns :: "index \<Rightarrow> val \<Rightarrow> bool" where
  "has_columns cs r = list_all (\<lambda>k. row_fields r k \<noteq> None) (columns cs)"

text \<open>The first named key a row lacks; it is asked of a row that lacks one.\<close>

definition first_missing :: "index \<Rightarrow> val \<Rightarrow> string" where
  "first_missing cs r = hd (filter (\<lambda>k. row_fields r k = None) (columns cs))"

text \<open>
  The named fields of a row that has them all: the value for one key, the tuple of the
  values for a tuple of keys.
\<close>

definition project :: "index \<Rightarrow> val \<Rightarrow> val" where
  "project cs r =
     (case cs of
        IKeys ks \<Rightarrow> VTuple (map (\<lambda>k. the (row_fields r k)) ks)
      | IKey k \<Rightarrow> the (row_fields r k)
      | _ \<Rightarrow> r)"

text \<open>
  The rows that have every named key, projected; when there are rows and none has them
  all, the \<open>KeyError\<close> of the first key the first row lacks.
\<close>

definition select_rows :: "index \<Rightarrow> val list \<Rightarrow> exc + val" where
  "select_rows cs rows =
     (let kept = filter (has_columns cs) rows
      in if rows \<noteq> [] \<and> kept = []
         then Inl (KeyError (IKey (first_missing cs (hd rows))))
         else Inr (VList (map (project cs) kept)))"

text \<open>
  What \<open>partial_index\<close> makes of one row before the missing markers are filtered out:
  a missing key gives a marker, and the first marker stands for a tuple.
\<close>

definition lookup :: "val \<Rightarrow> string \<Rightarrow> val" where
  "lookup r k = (case row_fields r k of None \<Rightarrow> Missing (KeyError (IKey k)) | Some v \<Rightarrow> v)"

definition cell :: "index \<Rightarrow> val \<Rightarrow> val" where
  "cell cs r = (case cs of IKey k \<Rightarrow> lookup r k | IKeys ks \<Rightarrow> incomplete_mapper (map (lookup r) ks) | _ \<Rightarrow> r)"

text \<open>A part of a query that selects columns: one key, or a tuple of keys that is not empty.\<close>

fun column_selector :: "index \<Rightarrow> bool" where
  "column_selector (IKey k) = True"
| "column_selector (IKeys ks) = (ks \<noteq> [])"
| "column_selector _ = False"

text \<open>
  The end of one turn of the loop over the parts: a missing marker left by
  \<open>filter_missing\<close> is raised as its \<open>KeyError\<close>.
\<close>

definition settle :: "val \<Rightarrow> exc + val" where
  "settle x = (case x of Missing e \<Rightarrow> Inl e | _ \<Rightarrow> Inr x)"

text \<open>The batch rows of an epoch row, under its key \<open>batches\<close>.\<close>

definition batches_of :: "val \<Rightarrow> val list" where
  "batches_of ep = (case row_fields ep ''batches'' of Some (VList bs) \<Rightarrow> bs | _ \<Rightarrow> [])"

text \<open>
  A history as the writers build it: every epoch is a row whose \<open>batches\<close> is a list
  of rows.
\<close>

definition wf_epoch :: "val \<Rightarrow> bool" where
  "wf_epoch ep =
     (is_row ep \<and>
      (case row_fields ep ''batches'' of Some (VList bs) \<Rightarrow> list_all is_row bs | _ \<Rightarrow> False))"

definition wf_history :: "history \<Rightarrow> bool" where
  "wf_history h = list_all wf_epoch h"

text \<open>
  The expected result for a single row: its projection, or the \<open>KeyError\<close> of the
  first key it lacks.
\<close>

definition select_row :: "index \<Rightarrow> val \<Rightarrow> exc + val" where
  "select_row cs r =
     (if has_columns cs r then Inr (project cs r)
      else Inl (KeyError (IKey (first_missing cs r))))"

text \<open>
  The expected result for the batches of several epochs: each group of batches is
  filtered as above, a group that is left with an error is left out, and when there are
  groups and all are left out, the error of the first group is raised.
\<close>

definition select_groups :: "index \<Rightarrow> val list list \<Rightarrow> exc + val" where
  "select_groups cs groups =
     (let results = map (select_rows cs) groups;
          kept = map projr (filter (\<lambda>r. \<not> isl r) results)
      in if groups \<noteq> [] \<and> kept = [] then hd results else Inr (VList kept))"

text \<open>An expected result seen from inside the query: an error is a missing marker.\<close>

definition unsettle :: "exc + val \<Rightarrow> val" where
  "unsettle r = (case r of Inl e \<Rightarrow> Missing e | Inr v \<Rightarrow> v)"

subsection \<open>Sequences of writes\<close>

text \<open>
  A call of one of the four writers \<open>new_epoch\<close>, \<open>record\<close>, \<open>new_batch\<close> and
  \<open>record_batch\<close>, and a sequence of such calls run on a history; it stops at the
  first call that raises.
\<close>

datatype hist_op = NewEpoch | Record string val | NewBatch | RecordBatch string val

fun apply_op :: "history \<Rightarrow> hist_op \<Rightarrow> exc + history" where
  "apply_op h NewEpoch = Inr (new_epoch h)"
| "apply_op h (Record attr v) = record_epoch h attr v"
| "apply_op h NewBatch = new_batch h"
| "apply_op h (RecordBatch attr v) = record_batch h attr v"

fun run_ops :: "history \<Rightarrow> hist_op list \<Rightarrow> exc + history" where
  "run_ops h [] = Inr h"
| "run_ops h (c # cs) = (case apply_op h c of Inl e \<Rightarrow> Inl e | Inr h' \<Rightarrow> run_ops h' cs)"

text \<open>
  The calls considered: \<open>record\<close> does not overwrite the reserved key \<open>batches\<close>, and
  the values recorded hold no missing marker.
\<close>

fun op_ok :: "hist_op \<Rightarrow> bool" where
  "op_ok (Record attr v) = (attr \<noteq> ''batches'' \<and> clean v)"
| "op_ok (RecordBatch attr v) = clean v"
| "op_ok _ = True"

text \<open>
  The number of \<open>new_epoch\<close> calls in a sequence, the calls after the last of them, and
  the number of \<open>new_batch\<close> calls among these.
\<close>

definition epochs_in :: "hist_op list \<Rightarrow> nat" where
  "epochs_in cs = length (filter (\<lambda>c. c = NewEpoch) cs)"

definition since_last_epoch :: "hist_op list \<Rightarrow> hist_op list" where
  "since_last_epoch cs = rev (takeWhile (\<lambda>c. c \<noteq> NewEpoch) (rev cs))"

definition batches_in :: "hist_op list \<Rightarrow> nat" where
  "batches_in cs = length (filter (\<lambda>c. c = NewBatch) (since_last_epoch cs))"

text \<open>The row \<open>new_epoch\<close> appends.\<close>

definition fresh_epoch :: val where
  "fresh_epoch = VDict [(''batches'', VList [])]"

text \<open>
  What a call other than \<open>new_epoch\<close> does to the last epoch row, and a sequence of
  such calls on one row.
\<close>

fun apply_epoch :: "val \<Rightarrow> hist_op \<Rightarrow> exc + val" where
  "apply_epoch ep NewEpoch = Inr ep"
| "apply_epoch ep (Record attr v) = py_setitem ep attr v"
| "apply_epoch ep NewBatch = with_key ep ''batches'' (\<lambda>bs. py_append bs (VDict []))"
| "apply_epoch ep (RecordBatch attr v) =
     with_key ep ''batches'' (\<lambda>bs. with_last_val bs (\<lambda>b. py_setitem b attr v))"

fun run_epoch :: "val \<Rightarrow> hist_op list \<Rightarrow> exc + val" where
  "run_epoch ep [] = Inr ep"
| "run_epoch ep (c # cs) = (case apply_epoch ep c of Inl e \<Rightarrow> Inl e | Inr ep' \<Rightarrow> run_epoch ep' cs)"

text \<open>
  A history of two epochs for the examples: the second lacks \<open>valid_loss\<close>, and no
  batch has both losses.
\<close>

definition example_history :: history where
  "example_history =
     [VDict [(''batches'', VList [VDict [(''train_loss'', Num 1)], VDict []]),
             (''train_loss'', Num 5), (''valid_loss'', Num 7)],
      VDict [(''batches'', VList [VDict [(''x'', Num 1)]]), (''train_loss'', Num 6)]]"

text \<open>A run of the writers over two epochs, and the history it builds.\<close>

definition example_calls :: "hist_op list" where
  "example_calls =
     [NewEpoch, Record ''epoch'' (Num 1), NewBatch, RecordBatch ''train_loss'' (Num 3),
      NewEpoch, Record ''epoch'' (Num 2), NewBatch, RecordBatch ''train_loss'' (Num 4), NewBatch]"

definition example_result :: history where
  "example_result =
     [VDict [(''batches'', VList [VDict [(''train_loss'', Num 3)]]), (''epoch'', Num 1)],
      VDict [(''batches'', VList [VDict [(''train_loss'', Num 4)], VDict []]), (''epoch'', Num 2)]]"

section \<open>Callbacks\<close>

text \<open>
  A class as \<open>_yield_callbacks\<close> sees it: the class \<open>PrintLog\<close> itself, or another
  class with its name and whether it derives from \<open>PrintLog\<close>.
\<close>

datatype pyclass = PrintLog | Class string bool

fun class_name :: "pyclass \<Rightarrow> string" where
  "class_name PrintLog = ''PrintLog''"
| "class_name (Class name derived) = name"

fun derives_PrintLog :: "pyclass \<Rightarrow> bool" where
  "derives_PrintLog PrintLog = True"
| "derives_PrintLog (Class name derived) = derived"

text \<open>
  A value a parameter can hold: a plain value, or the list of callback entries (or
  \<open>None\<close>) given as \<open>callbacks\<close>. A callback is an uninitialized class or an instance
  with the parameters set on it and whether \<open>initialize\<close> has run. A callback entry
  is a pair \<open>(name, callback)\<close> or a callback alone.
\<close>

datatype arg = Val val | Entries "entry list option"
  and callback = Uninitialized pyclass | Instance pyclass "(string \<times> arg) list" bool
  and entry = Named string callback | Unnamed callback

text \<open>\<open>isinstance(cb, PrintLog) or (cb == PrintLog)\<close>.\<close>

fun is_print_log :: "callback \<Rightarrow> bool" where
  "is_print_log (Instance c params initialized) = derives_PrintLog c"
| "is_print_log (Uninitialized c) = (c = PrintLog)"

text \<open>The name and callback of an item: \<open>cb.__name__\<close> or \<open>cb.__class__.__name__\<close>.\<close>

fun named :: "entry \<Rightarrow> string \<times> callback" where
  "named (Named name cb) = (name, cb)"
| "named (Unnamed (Uninitialized c)) = (class_name c, Uninitialized c)"
| "named (Unnamed (Instance c params initialized)) = (class_name c, Instance c params initialized)"

text \<open>
  The generator \<open>_yield_callbacks\<close> over the items still to visit, with the print logs
  collected so far: what it yields from there on.
\<close>

fun yield_from :: "entry list \<Rightarrow> (string \<times> callback) list \<Rightarrow> (string \<times> callback) list" where
  "yield_from [] print_logs = print_logs"
| "yield_from (item # items) print_logs =
     (case named item of (name, cb) \<Rightarrow>
        if is_print_log cb then yield_from items (print_logs @ [(name, cb)])
        else (name, cb) # yield_from items print_logs)"

text \<open>\<open>self.callbacks or []\<close> for a \<open>callbacks\<close> that is \<open>None\<close> or a list.\<close>

definition or_empty :: "entry list option \<Rightarrow> entry list" where
  "or_empty callbacks = (case callbacks of None \<Rightarrow> [] | Some items \<Rightarrow> items)"

definition yield_callbacks :: "entry list \<Rightarrow> entry list option \<Rightarrow> (string \<times> callback) list" where
  "yield_callbacks default_callbacks callbacks =
     yield_from (default_callbacks @ or_empty callbacks) []"

text \<open>The class attribute \<open>default_callbacks\<close> of \<open>NeuralNet\<close>.\<close>

definition Scoring :: pyclass where
  "Scoring = Class ''Scoring'' False"

definition NeuralNet_default_callbacks :: "entry list" where
  "NeuralNet_default_callbacks =
     [Named ''epoch_timer'' (Uninitialized (Class ''EpochTimer'' False)),
      Named ''train_loss'' (Instance Scoring [] False),
      Named ''valid_loss'' (Instance Scoring [] False),
      Named ''print_log'' (Uninitialized PrintLog)]"

subsection \<open>What the claims say about the callbacks\<close>

text \<open>
  The definitions of this part are not translations of code: they put the words of the
  claims about callbacks into terms, and \<open>_yield_callbacks\<close> and
  \<open>initialize_callbacks\<close> are compared with them below. An entry resolves to its
  explicit name, or to the name of the class of a callback given alone.
\<close>

fun callback_of :: "entry \<Rightarrow> callback" where
  "callback_of (Named name cb) = cb"
| "callback_of (Unnamed cb) = cb"

fun class_of :: "callback \<Rightarrow> pyclass" where
  "class_of (Uninitialized c) = c"
| "class_of (Instance c params initialized) = c"

fun is_instance :: "callback \<Rightarrow> bool" where
  "is_instance (Uninitialized c) = False"
| "is_instance (Instance c params initialized) = True"

fun resolved_name :: "entry \<Rightarrow> string" where
  "resolved_name (Named name cb) = name"
| "resolved_name (Unnamed cb) = class_name (class_of cb)"

definition resolved :: "entry \<Rightarrow> string \<times> callback" where
  "resolved item = (resolved_name item, callback_of item)"

text \<open>
  A printer-type callback: \<open>PrintLog\<close> or a class derived from it, given as a class or
  as an instance.
\<close>

definition printer_type :: "callback \<Rightarrow> bool" where
  "printer_type cb = derives_PrintLog (class_of cb)"

text \<open>
  The printer-type callbacks that are moved to the end: the instances, and the class
  \<open>PrintLog\<close> itself, but no other class.
\<close>

definition moved_last :: "callback \<Rightarrow> bool" where
  "moved_last cb = (printer_type cb \<and> (is_instance cb \<or> class_of cb = PrintLog))"

text \<open>
  The effective order of a list of entries: those that are not moved, in their order,
  then those that are moved, in their order.
\<close>

definition effective :: "entry list \<Rightarrow> entry list" where
  "effective items =
     filter (\<lambda>item. \<not> moved_last (callback_of item)) items @
     filter (\<lambda>item. moved_last (callback_of item)) items"

text \<open>
  User callbacks for the examples: a print log given as an instance without a name, a
  scorer given as a class, and an instance of a class derived from \<open>PrintLog\<close>; and a
  class derived from \<open>PrintLog\<close> given as a class, before a scorer.
\<close>

definition MyPrintLog :: pyclass where
  "MyPrintLog = Class ''MyPrintLog'' True"

definition example_callbacks :: "entry list" where
  "example_callbacks =
     [Unnamed (Instance PrintLog [] False), Unnamed (Uninitialized Scoring),
      Named ''mine'' (Instance MyPrintLog [] False)]"

definition subclass_callbacks :: "entry list" where
  "subclass_callbacks = [Unnamed (Uninitialized MyPrintLog), Unnamed (Uninitialized Scoring)]"

section \<open>The estimator\<close>

text \<open>\<open>s.startswith(p)\<close> and \<open>s.endswith(p)\<close>.\<close>

definition startswith :: "string \<Rightarrow> string \<Rightarrow> bool" where
  "startswith s p = (take (length p) s = p)"

definition endswith :: "string \<Rightarrow> string \<Rightarrow> bool" where
  "endswith s p = (length p \<le> length s \<and> drop (length s - length p) s = p)"

text \<open>The components \<open>initialize\<close> and \<open>set_params\<close> build.\<close>

datatype component = Callbacks | Criterion | Module | Optimizer | History

text \<open>
  A \<open>NeuralNet\<close>: the class attribute \<open>default_callbacks\<close>; the instance dictionary
  \<open>attrs\<close> with the declared fields, the prefixed parameters, \<open>history\<close> and
  \<open>initialized_\<close>; the initialized callbacks \<open>callbacks_\<close> (the field
  \<open>callbacks_attr\<close>); and, in \<open>built\<close>, which
  of \<open>callbacks_\<close>, \<open>criterion_\<close>, \<open>module_\<close>, \<open>optim_\<close> and \<open>history\<close> have been
  built, one entry for each time, oldest first.
\<close>

record net =
  default_callbacks :: "entry list"
  attrs :: "(string \<times> arg) list"
  callbacks_attr :: "(string \<times> callback) list"
  built :: "component list"

text \<open>\<open>_get_params_for\<close>: the parameters under a prefix, with the prefix cut off.\<close>

definition get_params_for :: "net \<Rightarrow> string \<Rightarrow> (string \<times> arg) list" where
  "get_params_for n prefix =
     (let prefix = (if \<not> endswith prefix ''__'' then prefix @ ''__'' else prefix)
      in map (\<lambda>(key, v). (drop (length prefix) key, v))
           (filter (\<lambda>(key, v). startswith key prefix) (attrs n)))"

text \<open>
  Truth of a plain value, for \<open>self.callbacks or []\<close> and \<open>if self.train_split\<close>.
\<close>

fun truthy :: "val \<Rightarrow> bool" where
  "truthy VNone = False"
| "truthy (VBool b) = b"
| "truthy (Num i) = (i \<noteq> 0)"
| "truthy (Str s) = (s \<noteq> [])"
| "truthy (VList xs) = (xs \<noteq> [])"
| "truthy (VTuple xs) = (xs \<noteq> [])"
| "truthy (VDict d) = (d \<noteq> [])"
| "truthy (Missing e) = True"

text \<open>
  \<open>self.default_callbacks + (self.callbacks or [])\<close>. A \<open>callbacks\<close> that is neither
  \<open>None\<close> nor a list of callback entries is outside the model: when false it counts as
  no callbacks, otherwise the sum is reported as a \<open>TypeError\<close>.
\<close>

definition all_callbacks :: "net \<Rightarrow> exc + entry list" where
  "all_callbacks n =
     (case map_of (attrs n) ''callbacks'' of
        None \<Rightarrow> Inl AttributeError
      | Some (Entries callbacks) \<Rightarrow> Inr (default_callbacks n @ or_empty callbacks)
      | Some (Val v) \<Rightarrow> if truthy v then Inl TypeError else Inr (default_callbacks n))"

text \<open>
  Modelled from the spec: the class \<open>Callback\<close> is not among the sources. A callback is
  constructed from its class with the routed parameters, or has them set on it
  (\<open>set_params\<close>: a parameter set again takes the new value), and is then initialized.
\<close>

definition set_callback_params :: "(string \<times> arg) list \<Rightarrow> (string \<times> arg) list \<Rightarrow> (string \<times> arg) list" where
  "set_callback_params old params = fold (\<lambda>(k, v) d. AList.update k v d) params old"

fun routed :: "callback \<Rightarrow> (string \<times> arg) list \<Rightarrow> callback" where
  "routed (Uninitialized c) params = Instance c params False"
| "routed (Instance c old initialized) params =
     Instance c (set_callback_params old params) initialized"

fun initialize_callback :: "callback \<Rightarrow> callback" where
  "initialize_callback (Instance c params initialized) = Instance c params True"
| "initialize_callback (Uninitialized c) = Uninitialized c"

definition duplicate_message :: "string \<Rightarrow> string" where
  "duplicate_message name =
     ''The callback name '' @ [CHR 0x27] @ name @ [CHR 0x27] @ '' appears more than once.''"

text \<open>The loop of \<open>initialize_callbacks\<close> over what \<open>_yield_callbacks\<close> yields.\<close>

fun initialize_each ::
  "net \<Rightarrow> (string \<times> callback) list \<Rightarrow> string list \<Rightarrow> (string \<times> callback) list
     \<Rightarrow> exc + (string \<times> callback) list" where
  "initialize_each n [] names_seen done = Inr done"
| "initialize_each n ((name, cb) # rest) names_seen done =
     (if name \<in> set names_seen then Inl (ValueError (duplicate_message name))
      else
        let params = get_params_for n (''callbacks__'' @ name);
            cb' = initialize_callback (routed cb params)
        in initialize_each n rest (name # names_seen) (done @ [(name, cb')]))"

definition initialize_callbacks :: "net \<Rightarrow> exc + net" where
  "initialize_callbacks n =
     (case all_callbacks n of
        Inl e \<Rightarrow> Inl e
      | Inr items \<Rightarrow>
          (case initialize_each n (yield_from items []) [] [] of
             Inl e \<Rightarrow> Inl e
           | Inr cbs \<Rightarrow> Inr (n\<lparr>callbacks_attr := cbs, built := built n @ [Callbacks]\<rparr>)))"

text \<open>
  The first name of a sequence that stands earlier in it too (or is among \<open>seen\<close>).
\<close>

fun first_duplicate :: "string list \<Rightarrow> string list \<Rightarrow> string option" where
  "first_duplicate [] seen = None"
| "first_duplicate (name # names) seen =
     (if name \<in> set seen then Some name else first_duplicate names (name # seen))"

text \<open>An instance on which \<open>initialize\<close> has run.\<close>

fun initialized_instance :: "callback \<Rightarrow> bool" where
  "initialized_instance (Instance c params initialized) = initialized"
| "initialized_instance (Uninitialized c) = False"

text \<open>What \<open>initialize_callbacks\<close> makes of one yielded pair.\<close>

definition initialized_entry :: "net \<Rightarrow> string \<times> callback \<Rightarrow> string \<times> callback" where
  "initialized_entry n = (\<lambda>(name, cb).
     (name, initialize_callback (routed cb (get_params_for n (''callbacks__'' @ name)))))"

text \<open>
  Estimators for the examples. The user callbacks of the first give a name that a default
  callback has; those of the second are the class \<open>Scoring\<close> and an instance of it, both
  without a name; those of the third resolve to names that are all distinct, and a
  parameter is routed to the timer.
\<close>

definition example_net :: net where
  "example_net =
     \<lparr>default_callbacks = NeuralNet_default_callbacks,
      attrs = [(''callbacks'', Entries (Some [Unnamed (Instance PrintLog [] False),
                                            Named ''train_loss'' (Uninitialized Scoring)])),
               (''callbacks__epoch_timer__x'', Val (Num 1))],
      callbacks_attr = [], built = []\<rparr>"

definition inferred_net :: net where
  "inferred_net =
     \<lparr>default_callbacks = NeuralNet_default_callbacks,
      attrs = [(''callbacks'', Entries (Some [Unnamed (Uninitialized Scoring),
                                            Unnamed (Instance Scoring [] False)]))],
      callbacks_attr = [], built = []\<rparr>"

definition distinct_net :: net where
  "distinct_net =
     \<lparr>default_callbacks = NeuralNet_default_callbacks,
      attrs = [(''callbacks'', Entries (Some example_callbacks)),
               (''callbacks__epoch_timer__x'', Val (Num 1))],
      callbacks_attr = [], built = []\<rparr>"

subsection \<open>Construction\<close>

text \<open>The class attribute \<open>prefixes_\<close> and the test \<open>any(key.startswith(p) for p in prefixes_)\<close>.\<close>

definition prefixes :: "string list" where
  "prefixes = [''module'', ''iterator_train'', ''iterator_test'', ''optim'', ''criterion'',
               ''callbacks'']"

definition key_has_prefix :: "string \<Rightarrow> bool" where
  "key_has_prefix key = list_ex (startswith key) prefixes"

text \<open>The named parameters of \<open>__init__\<close>, in the order it assigns them.\<close>

definition declared_fields :: "string list" where
  "declared_fields =
     [''module'', ''criterion'', ''optim'', ''lr'', ''max_epochs'', ''batch_size'',
      ''iterator_train'', ''iterator_test'', ''dataset'', ''train_split'', ''callbacks'',
      ''cold_start'', ''verbose'', ''use_cuda'']"

text \<open>\<open>kwargs.pop(key, default)\<close>: the value, and \<open>kwargs\<close> without the key.\<close>

definition pop :: "(string \<times> arg) list \<Rightarrow> string \<Rightarrow> arg \<Rightarrow> arg \<times> (string \<times> arg) list" where
  "pop kwargs key dflt =
     ((case map_of kwargs key of None \<Rightarrow> dflt | Some v \<Rightarrow> v), AList.delete key kwargs)"

text \<open>
  The loop over the remaining keys with its two assertions. \<open>hasattr\<close> tells which names
  are attributes of the object already.
\<close>

fun check_keys :: "(string \<Rightarrow> bool) \<Rightarrow> string list \<Rightarrow> exc option" where
  "check_keys hasattr [] = None"
| "check_keys hasattr (key # keys) =
     (if \<not> \<not> hasattr key then Some AssertionError
      else if \<not> (endswith key ''_'' \<or> key_has_prefix key) then Some AssertionError
      else check_keys hasattr keys)"

text \<open>\<open>vars(self).update(kwargs)\<close>.\<close>

definition dict_update :: "(string \<times> arg) list \<Rightarrow> (string \<times> arg) list \<Rightarrow> (string \<times> arg) list" where
  "dict_update d kwargs = fold (\<lambda>(k, v) d. AList.update k v d) kwargs d"

text \<open>
  \<open>__init__\<close>, given the values of the named parameters and the extra keyword
  arguments; it returns the dictionary of the new object. The attributes the class and
  its bases define (methods, \<open>prefixes_\<close>, \<open>default_callbacks\<close>, what \<open>Callback\<close>
  brings) are the parameter \<open>class_attr\<close>.
\<close>

definition NeuralNet_init ::
  "(string \<Rightarrow> bool) \<Rightarrow> arg list \<Rightarrow> (string \<times> arg) list \<Rightarrow> exc + (string \<times> arg) list" where
  "NeuralNet_init class_attr values kwargs =
     (let self = zip declared_fields values;
          (history, kwargs) = pop kwargs ''history'' (Val VNone);
          (initialized, kwargs) = pop kwargs ''initialized_'' (Val (VBool False))
      in case check_keys (\<lambda>key. map_of self key \<noteq> None \<or> class_attr key) (map fst kwargs) of
           Some e \<Rightarrow> Inl e
         | None \<Rightarrow>
             Inr (AList.update ''initialized_'' initialized
                   (AList.update ''history'' history (dict_update self kwargs))))"

text \<open>The names \<open>class NeuralNet\<close> itself defines.\<close>

definition NeuralNet_attributes :: "string list" where
  "NeuralNet_attributes =
     [''prefixes_'', ''default_callbacks'', ''__init__'', ''notify'', ''on_epoch_begin'',
      ''on_batch_begin'', ''_yield_callbacks'', ''initialize_callbacks'',
      ''initialize_criterion'', ''initialize_module'', ''initialize_optimizer'',
      ''initialize_history'', ''initialize'', ''check_data'', ''validation_step'',
      ''train_step'', ''evaluation_step'', ''fit_loop'', ''partial_fit'', ''fit'', ''forward'',
      ''infer'', ''predict_proba'', ''predict'', ''get_loss'', ''get_iterator'',
      ''_get_params_for'', ''_get_param_names'', ''get_params'', ''set_params'',
      ''__getstate__'', ''__setstate__'', ''save_params'', ''load_params'']"

text \<open>
  Names the class is known to inherit: the four hooks that \<open>notify\<close> calls on the
  estimator and that \<open>NeuralNet\<close> does not define, and the names every object has.
  \<open>Callback\<close> is not among the sources and may bring more.
\<close>

definition inherited_attributes :: "string list" where
  "inherited_attributes =
     [''on_train_begin'', ''on_train_end'', ''on_epoch_end'', ''on_batch_end'',
      ''__class__'', ''__delattr__'', ''__dict__'', ''__dir__'', ''__doc__'', ''__eq__'',
      ''__format__'', ''__ge__'', ''__getattribute__'', ''__gt__'', ''__hash__'',
      ''__init_subclass__'', ''__le__'', ''__lt__'', ''__module__'', ''__ne__'', ''__new__'',
      ''__reduce__'', ''__reduce_ex__'', ''__repr__'', ''__setattr__'', ''__sizeof__'',
      ''__str__'', ''__subclasshook__'', ''__weakref__'']"

definition NeuralNet_class_attr :: "string \<Rightarrow> bool" where
  "NeuralNet_class_attr key = (key \<in> set (NeuralNet_attributes @ inherited_attributes))"

text \<open>The default values of the named parameters, with some module and criterion.\<close>

definition example_values :: "arg list" where
  "example_values =
     [Val (Str ''MyModule''), Val (Str ''MSELoss''), Val (Str ''SGD''), Val (Num 1), Val (Num 10),
      Val (Num 128), Val (Str ''DataLoader''), Val (Str ''DataLoader''), Val (Str ''Dataset''),
      Val (Str ''CVSplit''), Entries None, Val (VBool True), Val (Num 1), Val (VBool False)]"

subsection \<open>Initialization and \<open>set_params\<close>\<close>

text \<open>
  What the estimator calls and the sources do not hold: \<open>BaseEstimator.set_params\<close> of
  scikit-learn, which sets plain attributes in the instance dictionary or rejects a name,
  and the constructors of the criterion, the module and the optimizer, which are given
  the routed parameters and may raise.
\<close>

record externals =
  base_set_params :: "(string \<times> arg) list \<Rightarrow> (string \<times> arg) list \<Rightarrow> exc + (string \<times> arg) list"
  construct :: "component \<Rightarrow> (string \<times> arg) list \<Rightarrow> exc option"

definition initialize_criterion :: "externals \<Rightarrow> net \<Rightarrow> exc + net" where
  "initialize_criterion x n =
     (let criterion_params = get_params_for n ''criterion''
      in case construct x Criterion criterion_params of
           Some e \<Rightarrow> Inl e
         | None \<Rightarrow> Inr (n\<lparr>built := built n @ [Criterion]\<rparr>))"

text \<open>
  \<open>initialize_module\<close> instantiates \<open>self.module\<close> with the \<open>module__\<close> parameters
  (or keeps an instance given without parameters) and binds \<open>module_\<close>.
\<close>

definition initialize_module :: "externals \<Rightarrow> net \<Rightarrow> exc + net" where
  "initialize_module x n =
     (let kwargs = get_params_for n ''module''
      in case construct x Module kwargs of
           Some e \<Rightarrow> Inl e
         | None \<Rightarrow> Inr (n\<lparr>built := built n @ [Module]\<rparr>))"

text \<open>
  \<open>initialize_optimizer\<close> reads \<open>self.lr\<close> when no \<open>optim__lr\<close> is set, and
  \<open>self.module_\<close>, which exists once the module has been built.
\<close>

definition initialize_optimizer :: "externals \<Rightarrow> net \<Rightarrow> exc + net" where
  "initialize_optimizer x n =
     (let kwargs = get_params_for n ''optim''
      in case (if map_of kwargs ''lr'' = None
               then (case map_of (attrs n) ''lr'' of
                       None \<Rightarrow> Inl AttributeError
                     | Some lr \<Rightarrow> Inr (kwargs @ [(''lr'', lr)]))
               else Inr kwargs) of
           Inl e \<Rightarrow> Inl e
         | Inr kwargs \<Rightarrow>
             if Module \<notin> set (built n) then Inl AttributeError
             else case construct x Optimizer kwargs of
                    Some e \<Rightarrow> Inl e
                  | None \<Rightarrow> Inr (n\<lparr>built := built n @ [Optimizer]\<rparr>))"

definition initialize_history :: "net \<Rightarrow> net" where
  "initialize_history n =
     n\<lparr>attrs := AList.update ''history'' (Val (VList [])) (attrs n), built := built n @ [History]\<rparr>"

text \<open>Sequencing of steps that may raise.\<close>

definition and_then :: "exc + 'a \<Rightarrow> ('a \<Rightarrow> exc + 'b) \<Rightarrow> exc + 'b" where
  "and_then r f = (case r of Inl e \<Rightarrow> Inl e | Inr v \<Rightarrow> f v)"

definition initialize :: "externals \<Rightarrow> net \<Rightarrow> exc + net" where
  "initialize x n =
     and_then (initialize_callbacks n) (\<lambda>n.
     and_then (initialize_criterion x n) (\<lambda>n.
     and_then (initialize_module x n) (\<lambda>n.
     and_then (initialize_optimizer x n) (\<lambda>n.
       let n = initialize_history n
       in Inr (n\<lparr>attrs := AList.update ''initialized_'' (Val (VBool True)) (attrs n)\<rparr>)))))"

text \<open>The loop of \<open>set_params\<close> over the special parameters.\<close>

fun set_special :: "(string \<times> arg) list \<Rightarrow> (string \<times> arg) list \<Rightarrow> exc + (string \<times> arg) list" where
  "set_special d [] = Inr d"
| "set_special d ((key, v) # special_params) =
     (if endswith key ''_'' then Inl (ValueError ''Not sure: Should this ever happen?'')
      else set_special (AList.update key v d) special_params)"

definition any_key_startswith :: "(string \<times> arg) list \<Rightarrow> string \<Rightarrow> bool" where
  "any_key_startswith params p = list_ex (\<lambda>(key, v). startswith key p) params"

definition set_params :: "externals \<Rightarrow> net \<Rightarrow> (string \<times> arg) list \<Rightarrow> exc + net" where
  "set_params x n kwargs =
     (let normal_params = filter (\<lambda>(key, v). \<not> key_has_prefix key) kwargs;
          special_params = filter (\<lambda>(key, v). key_has_prefix key) kwargs
      in and_then (base_set_params x (attrs n) normal_params) (\<lambda>d.
         and_then (set_special d special_params) (\<lambda>d.
         and_then (if any_key_startswith special_params ''criterion''
                   then initialize_criterion x (n\<lparr>attrs := d\<rparr>) else Inr (n\<lparr>attrs := d\<rparr>)) (\<lambda>n.
         and_then (if any_key_startswith special_params ''callbacks''
                   then initialize_callbacks n else Inr n) (\<lambda>n.
         and_then (if any_key_startswith special_params ''module''
                   then and_then (initialize_module x n) (initialize_optimizer x) else Inr n) (\<lambda>n.
         if any_key_startswith special_params ''optimizer''
         then initialize_optimizer x n else Inr n))))))"

text \<open>Externals that accept everything, and an estimator after \<open>initialize\<close>.\<close>

definition example_externals :: externals where
  "example_externals =
     \<lparr>base_set_params = (\<lambda>d params. Inr (dict_update d params)),
      construct = (\<lambda>c params. None)\<rparr>"

definition example_initialized :: net where
  "example_initialized =
     \<lparr>default_callbacks = NeuralNet_default_callbacks,
      attrs = zip declared_fields example_values @
              [(''history'', Val (VList [])), (''initialized_'', Val (VBool True))],
      callbacks_attr = [],
      built = [Callbacks, Criterion, Module, Optimizer, History]\<rparr>"

section \<open>Datasets\<close>

text \<open>
  The data a dataset wraps: an array-like object with a length (a numpy array, a pandas
  frame, a string), a torch tensor with its elements, an object without a length (a
  number), a list or tuple of data, or a dict of data.
\<close>

datatype data =
    Array nat
  | Tensor "int list"
  | Scalar
  | DList "data list"
  | DDict "(string \<times> data) list"

text \<open>The nested lists of lengths that \<open>_apply_to_data(data, len, unpack_dict=True)\<close> returns.\<close>

datatype lens = Len nat | Lens "lens list"

text \<open>\<open>len(data)\<close>.\<close>

fun py_len :: "data \<Rightarrow> exc + nat" where
  "py_len (Array n) = Inr n"
| "py_len (Tensor xs) = Inr (length xs)"
| "py_len Scalar = Inl TypeError"
| "py_len (DList xs) = Inr (length xs)"
| "py_len (DDict d) = Inr (length d)"

text \<open>
  \<open>_apply_to_data\<close> with \<open>func = len\<close> and \<open>unpack_dict = True\<close>. A list whose
  members cannot all be measured is measured itself: the \<open>TypeError\<close> is caught there.
\<close>

fun apply_to_data :: "data \<Rightarrow> exc + lens" where
  "apply_to_data (DDict d) =
     (case collect (map (\<lambda>v. apply_to_data v) (map snd d)) of
        Inl e \<Rightarrow> Inl e
      | Inr ls \<Rightarrow> Inr (Lens ls))"
| "apply_to_data (DList xs) =
     (case collect (map (\<lambda>x. apply_to_data x) xs) of
        Inl TypeError \<Rightarrow> (case py_len (DList xs) of Inl e \<Rightarrow> Inl e | Inr n \<Rightarrow> Inr (Len n))
      | Inl e \<Rightarrow> Inl e
      | Inr ls \<Rightarrow> Inr (Lens ls))"
| "apply_to_data x = (case py_len x of Inl e \<Rightarrow> Inl e | Inr n \<Rightarrow> Inr (Len n))"

text \<open>
  \<open>get_len\<close>. The helper \<open>flatten\<close> of \<open>skorch.utils\<close> is not among the sources and is
  a parameter: it turns the nested lengths into a flat list.
\<close>

definition get_len :: "(lens list \<Rightarrow> nat list) \<Rightarrow> data \<Rightarrow> exc + nat" where
  "get_len flatten d =
     (case apply_to_data d of
        Inl e \<Rightarrow> Inl e
      | Inr l \<Rightarrow>
          let lens = flatten [l]; len_set = remdups lens
          in if length len_set \<noteq> 1
             then Inl (ValueError ''Dataset does not have consistent lengths.'')
             else Inr (hd len_set))"

text \<open>A \<open>Dataset\<close> with its attributes \<open>X\<close>, \<open>y\<close>, \<open>device\<close> and \<open>_len\<close>.\<close>

record dataset =
  ds_X :: data
  ds_y :: "data option"
  ds_device :: string
  ds_len :: int

text \<open>\<open>Dataset.__init__\<close>.\<close>

definition Dataset_init ::
  "(lens list \<Rightarrow> nat list) \<Rightarrow> data \<Rightarrow> data option \<Rightarrow> string \<Rightarrow> int option \<Rightarrow> exc + dataset" where
  "Dataset_init flatten X y device given_length =
     (case given_length of
        Some l \<Rightarrow> Inr \<lparr>ds_X = X, ds_y = y, ds_device = device, ds_len = l\<rparr>
      | None \<Rightarrow>
          and_then (get_len flatten X) (\<lambda>len_X.
          and_then (case y of
                      None \<Rightarrow> Inr ()
                    | Some y \<Rightarrow>
                        and_then (get_len flatten y) (\<lambda>len_y.
                          if len_y \<noteq> len_X
                          then Inl (ValueError ''X and y have inconsistent lengths.'')
                          else Inr ())) (\<lambda>_.
          Inr \<lparr>ds_X = X, ds_y = y, ds_device = device, ds_len = int len_X\<rparr>)))"

text \<open>\<open>Dataset.__len__\<close>: it returns \<open>_len\<close> as it is.\<close>

definition Dataset_len :: "dataset \<Rightarrow> int" where
  "Dataset_len ds = ds_len ds"

text \<open>
  Python's \<open>len(obj)\<close> for an object whose \<open>__len__\<close> returns the integer \<open>r\<close>:
  a negative \<open>r\<close> and one above \<open>sys.maxsize\<close> (here that of a 64-bit platform) are
  refused. \<open>len_dataset\<close> is \<open>len(dataset)\<close>.
\<close>

definition maxsize :: int where
  "maxsize = 2 ^ 63 - 1"

definition len_builtin :: "int \<Rightarrow> exc + nat" where
  "len_builtin r =
     (if r < 0 then Inl (ValueError ''__len__() should return >= 0'')
      else if maxsize < r then Inl OverflowError
      else Inr (nat r))"

definition len_dataset :: "dataset \<Rightarrow> exc + nat" where
  "len_dataset ds = len_builtin (Dataset_len ds)"

text \<open>
  The helpers of \<open>skorch.utils\<close> that \<open>__getitem__\<close> and \<open>transform\<close> call, none of
  them among the sources: the test for a pandas frame, the frame as a dict of columns (the
  dict comprehension of \<open>__getitem__\<close>), indexing of data, and conversion to a tensor on a
  device. What indexing returns may be \<open>None\<close>, as a row of an array of objects can be.
\<close>

record 't utils =
  is_pandas_ndframe :: "data \<Rightarrow> bool"
  frame_columns :: "data \<Rightarrow> data"
  multi_indexing :: "data \<Rightarrow> index \<Rightarrow> exc + data option"
  to_tensor :: "data option \<Rightarrow> string \<Rightarrow> exc + 't"

text \<open>\<open>torch.Tensor([0])\<close>, the placeholder for a target that is \<open>None\<close>.\<close>

definition placeholder :: data where
  "placeholder = Tensor [0]"

text \<open>\<open>Dataset.transform\<close>.\<close>

definition transform ::
  "'t utils \<Rightarrow> dataset \<Rightarrow> data option \<Rightarrow> data option \<Rightarrow> exc + 't \<times> 't" where
  "transform u ds X y =
     (let y = (if y = None then Some placeholder else y)
      in and_then (to_tensor u X (ds_device ds)) (\<lambda>tX.
         and_then (to_tensor u y (ds_device ds)) (\<lambda>ty. Inr (tX, ty))))"

text \<open>\<open>Dataset.__getitem__\<close>.\<close>

definition Dataset_getitem :: "'t utils \<Rightarrow> dataset \<Rightarrow> index \<Rightarrow> exc + 't \<times> 't" where
  "Dataset_getitem u ds i =
     (let X = (if is_pandas_ndframe u (ds_X ds) then frame_columns u (ds_X ds) else ds_X ds)
      in and_then (multi_indexing u X i) (\<lambda>Xi.
         and_then (case ds_y ds of None \<Rightarrow> Inr None | Some y \<Rightarrow> multi_indexing u y i) (\<lambda>yi.
         transform u ds Xi yi)))"

subsection \<open>What the claims say about datasets\<close>






text \<open>
  One flattening of nested lengths, as \<open>flatten\<close> of \<open>skorch.utils\<close> does it; it is
  used in the examples.
\<close>

fun flatten_lens :: "lens list \<Rightarrow> nat list" where
  "flatten_lens [] = []"
| "flatten_lens (Len n # rest) = n # flatten_lens rest"
| "flatten_lens (Lens ls # rest) = flatten_lens ls @ flatten_lens rest"



text \<open>
  Helpers for the examples: lists are indexed by integers, and a tensor is what was
  converted with the device it was moved to.
\<close>

fun example_indexing :: "data \<Rightarrow> index \<Rightarrow> exc + data option" where
  "example_indexing (DList xs) (IInt k) = and_then (seq_getitem xs k) (\<lambda>x. Inr (Some x))"
| "example_indexing d i = Inl TypeError"

definition example_utils :: "(data option \<times> string) utils" where
  "example_utils =
     \<lparr>is_pandas_ndframe = (\<lambda>d. False), frame_columns = (\<lambda>d. d),
      multi_indexing = example_indexing, to_tensor = (\<lambda>d dev. Inr (d, dev))\<rparr>"



text \<open>
  For the counterexample: an array of objects that are all \<open>None\<close>, so that indexing it
  gives a row that is \<open>None\<close>, as the target of a dataset.
\<close>

definition none_rows :: "(data option \<times> string) utils" where
  "none_rows =
     example_utils\<lparr>multi_indexing :=
       (\<lambda>d i. case d of Array n \<Rightarrow> Inr None | _ \<Rightarrow> example_indexing d i)\<rparr>"

definition example_none_target :: dataset where
  "example_none_target =
     \<lparr>ds_X = DList [Tensor [1, 2], Tensor [3, 4]], ds_y = Some (Array 2),
      ds_device = ''cpu'', ds_len = 2\<rparr>"

section \<open>Training\<close>

text \<open>
  What \<open>fit_loop\<close> is given as \<open>X\<close> and \<open>y\<close> and what a splitter returns in its
  tuple: \<open>None\<close>, data, or a \<open>Subset\<close> of data at some indices.
\<close>

datatype pyobj = PNone | PData data | PSubset data "nat list"

datatype hook =
    on_train_begin | on_train_end | on_epoch_begin | on_epoch_end | on_batch_begin | on_batch_end

text \<open>
  What a fit does, in order: a \<open>notify\<close> of a hook, the hook of one callback, the call
  of the splitter, of the dataset class, of an iterator (for training or not), a training
  step and a validation step on a batch.
\<close>

datatype action =
    Notify hook
  | CallbackHook string hook
  | SplitCall pyobj pyobj
  | DatasetCall pyobj pyobj
  | IteratorCall bool
  | TrainStep data data
  | ValidationStep data data

text \<open>
  The collaborators of a fit that the sources do not hold. \<open>raises\<close> tells, from the
  actions so far with the one under way last, whether that one raises (a callback, the
  splitter, an iterator, the module or the user at the keyboard). The others give what
  the splitter returns as its tuple, the batches an iterator yields for a dataset made of
  \<open>X\<close> and \<open>y\<close>, and the number in \<open>loss.data[0]\<close> after a step.
\<close>

record world =
  externals_of :: externals
  raises :: "action list \<Rightarrow> exc option"
  train_split_call :: "pyobj \<Rightarrow> pyobj \<Rightarrow> pyobj list"
  iterator_call :: "pyobj \<Rightarrow> pyobj \<Rightarrow> bool \<Rightarrow> (data \<times> data) list"
  loss_value :: "action list \<Rightarrow> val"

text \<open>
  The estimator during a fit, with the actions done so far. A step returns the
  exception it raises, if any, and the state it leaves: what was done before an
  exception stays done.
\<close>

record fstate =
  net_of :: net
  trace :: "action list"

type_synonym step = "fstate \<Rightarrow> exc option \<times> fstate"

definition then_do :: "step \<Rightarrow> step \<Rightarrow> step" where
  "then_do f g s = (case f s of (Some e, s') \<Rightarrow> (Some e, s') | (None, s') \<Rightarrow> g s')"

fun for_each :: "'a list \<Rightarrow> ('a \<Rightarrow> step) \<Rightarrow> step" where
  "for_each [] f s = (None, s)"
| "for_each (x # xs) f s = then_do (f x) (for_each xs f) s"

definition skip :: step where
  "skip s = (None, s)"

definition mark :: "action \<Rightarrow> step" where
  "mark a s = (None, s\<lparr>trace := trace s @ [a]\<rparr>)"

definition perform :: "world \<Rightarrow> action \<Rightarrow> step" where
  "perform w a s = (raises w (trace s @ [a]), s\<lparr>trace := trace s @ [a]\<rparr>)"

text \<open>A method of \<open>self.history\<close>; anything but a history there has no such method.\<close>

definition history_step :: "(history \<Rightarrow> exc + history) \<Rightarrow> step" where
  "history_step f s =
     (case map_of (attrs (net_of s)) ''history'' of
        Some (Val (VList h)) \<Rightarrow>
          (case f h of
             Inl e \<Rightarrow> (Some e, s)
           | Inr h' \<Rightarrow>
               (None, s\<lparr>net_of := (net_of s)\<lparr>attrs :=
                          AList.update ''history'' (Val (VList h')) (attrs (net_of s))\<rparr>\<rparr>))
      | _ \<Rightarrow> (Some AttributeError, s))"

text \<open>
  The hooks of the estimator itself. \<open>on_epoch_begin\<close> and \<open>on_batch_begin\<close> are in the
  source. Modelled from the spec: the other four come from \<open>Callback\<close>, which is not
  among the sources, and are no-ops.
\<close>

fun own_hook :: "hook \<Rightarrow> step" where
  "own_hook on_epoch_begin =
     then_do (history_step (\<lambda>h. Inr (new_epoch h)))
             (history_step (\<lambda>h. record_epoch h ''epoch'' (Num (int (length h)))))"
| "own_hook on_batch_begin = history_step new_batch"
| "own_hook h = skip"

definition notify :: "world \<Rightarrow> hook \<Rightarrow> step" where
  "notify w h =
     then_do (mark (Notify h))
    (then_do (own_hook h)
             (\<lambda>s. for_each (callbacks_attr (net_of s)) (\<lambda>(name, cb). perform w (CallbackHook name h)) s))"

text \<open>\<open>len(xi)\<close> of a batch, recorded as a number.\<close>

definition record_batch_size :: "string \<Rightarrow> data \<Rightarrow> step" where
  "record_batch_size attr xi s =
     (case py_len xi of
        Inl e \<Rightarrow> (Some e, s)
      | Inr k \<Rightarrow> history_step (\<lambda>h. record_batch h attr (Num (int k))) s)"

text \<open>The body of the loop over the training batches, and over the validation batches.\<close>

definition train_batch :: "world \<Rightarrow> data \<times> data \<Rightarrow> step" where
  "train_batch w = (\<lambda>(xi, yi).
     then_do (notify w on_batch_begin)
    (then_do (perform w (TrainStep xi yi))
    (then_do (\<lambda>s. history_step (\<lambda>h. record_batch h ''train_loss'' (loss_value w (trace s))) s)
    (then_do (record_batch_size ''train_batch_size'' xi)
             (notify w on_batch_end)))))"

definition valid_batch :: "world \<Rightarrow> data \<times> data \<Rightarrow> step" where
  "valid_batch w = (\<lambda>(xi, yi).
     then_do (notify w on_batch_begin)
    (then_do (perform w (ValidationStep xi yi))
    (then_do (\<lambda>s. history_step (\<lambda>h. record_batch h ''valid_loss'' (loss_value w (trace s))) s)
    (then_do (record_batch_size ''valid_batch_size'' xi)
             (notify w on_batch_end)))))"

text \<open>
  One pass of \<open>for epoch in range(epochs)\<close>. \<open>dataset_valid\<close> is \<open>None\<close> when
  there is no splitter; \<open>X_valid\<close> is \<open>None\<close> too then, and the pass ends before the
  validation dataset is used.
\<close>

definition epoch :: "world \<Rightarrow> pyobj \<times> pyobj \<Rightarrow> pyobj \<Rightarrow> (pyobj \<times> pyobj) option \<Rightarrow> step" where
  "epoch w dataset_train X_valid dataset_valid =
     then_do (notify w on_epoch_begin)
    (then_do (perform w (IteratorCall True))
    (then_do (for_each (iterator_call w (fst dataset_train) (snd dataset_train) True) (train_batch w))
       (if X_valid = PNone then notify w on_epoch_end
        else case dataset_valid of
               None \<Rightarrow> (\<lambda>s. (Some AttributeError, s))
             | Some (Xv, yv) \<Rightarrow>
                 then_do (perform w (IteratorCall False))
                (then_do (for_each (iterator_call w Xv yv False) (valid_batch w))
                         (notify w on_epoch_end)))))"

text \<open>A natural number in decimal, for the messages that quote one.\<close>

fun decimal :: "nat \<Rightarrow> string" where
  "decimal n =
     (if n < 10 then [char_of (48 + n)] else decimal (n div 10) @ [char_of (48 + n mod 10)])"

declare decimal.simps [simp del]

text \<open>
  \<open>X_train, X_valid, y_train, y_valid = self.train_split(X, y)\<close>: the tuple must have
  four members.
\<close>

definition unpack4 :: "pyobj list \<Rightarrow> exc + pyobj \<times> pyobj \<times> pyobj \<times> pyobj" where
  "unpack4 t =
     (case t of
        [a, b, c, d] \<Rightarrow> Inr (a, b, c, d)
      | _ \<Rightarrow> if length t < 4
             then Inl (ValueError (''not enough values to unpack (expected 4, got '' @
                                   decimal (length t) @ '')''))
             else Inl (ValueError ''too many values to unpack (expected 4)''))"

text \<open>A plain attribute of the estimator.\<close>

definition attr_value :: "fstate \<Rightarrow> string \<Rightarrow> exc + val" where
  "attr_value s name =
     (case map_of (attrs (net_of s)) name of Some (Val v) \<Rightarrow> Inr v | _ \<Rightarrow> Inl AttributeError)"

text \<open>\<open>range(epochs)\<close> for an \<open>epochs\<close> that is a number.\<close>

fun range_of :: "val \<Rightarrow> exc + nat list" where
  "range_of (Num k) = Inr [0..<nat k]"
| "range_of v = Inl TypeError"

text \<open>
  \<open>NeuralNet.fit_loop\<close> (\<open>check_data\<close> of the base class does nothing). The dataset
  class is called on the validation part first, then on the training part; the dataset is
  what it was made of.
\<close>

definition fit_loop :: "world \<Rightarrow> pyobj \<Rightarrow> pyobj \<Rightarrow> val option \<Rightarrow> step" where
  "fit_loop w X y epochs s =
     (case (case epochs of Some k \<Rightarrow> Inr k | None \<Rightarrow> attr_value s ''max_epochs'') of
        Inl e \<Rightarrow> (Some e, s)
      | Inr epochs \<Rightarrow>
     (case attr_value s ''train_split'' of
        Inl e \<Rightarrow> (Some e, s)
      | Inr train_split \<Rightarrow>
          if truthy train_split then
            then_do (perform w (SplitCall X y))
              (case unpack4 (train_split_call w X y) of
                 Inl e \<Rightarrow> (\<lambda>s. (Some e, s))
               | Inr (X_train, X_valid, y_train, y_valid) \<Rightarrow>
                   then_do (perform w (DatasetCall X_valid y_valid))
                  (then_do (perform w (DatasetCall X_train y_train))
                     (case range_of epochs of
                        Inl e \<Rightarrow> (\<lambda>s. (Some e, s))
                      | Inr r \<Rightarrow>
                          for_each r (\<lambda>i. epoch w (X_train, y_train) X_valid
                                            (Some (X_valid, y_valid)))))) s
          else
            then_do (perform w (DatasetCall X y))
              (case range_of epochs of
                 Inl e \<Rightarrow> (\<lambda>s. (Some e, s))
               | Inr r \<Rightarrow> for_each r (\<lambda>i. epoch w (X, y) PNone None)) s))"

text \<open>A step of the estimator alone, such as \<open>initialize\<close>.\<close>

definition net_step :: "(net \<Rightarrow> exc + net) \<Rightarrow> step" where
  "net_step f s = (case f (net_of s) of Inl e \<Rightarrow> (Some e, s) | Inr n \<Rightarrow> (None, s\<lparr>net_of := n\<rparr>))"

text \<open>\<open>try: ... except KeyboardInterrupt: pass\<close>.\<close>

definition except_KeyboardInterrupt :: "step \<Rightarrow> step" where
  "except_KeyboardInterrupt f s =
     (case f s of (Some KeyboardInterrupt, s') \<Rightarrow> (None, s') | r \<Rightarrow> r)"

text \<open>\<open>NeuralNet.partial_fit\<close>.\<close>

definition partial_fit :: "world \<Rightarrow> pyobj \<Rightarrow> pyobj \<Rightarrow> step" where
  "partial_fit w X y s =
     (case attr_value s ''initialized_'' of
        Inl e \<Rightarrow> (Some e, s)
      | Inr initialized \<Rightarrow>
          then_do (if \<not> truthy initialized then net_step (initialize (externals_of w)) else skip)
         (then_do (notify w on_train_begin)
         (then_do (except_KeyboardInterrupt (fit_loop w X y None))
                  (notify w on_train_end))) s)"

text \<open>\<open>NeuralNet.fit\<close>.\<close>

definition fit :: "world \<Rightarrow> pyobj \<Rightarrow> pyobj \<Rightarrow> step" where
  "fit w X y s =
     (case attr_value s ''cold_start'' of
        Inl e \<Rightarrow> (Some e, s)
      | Inr cold_start \<Rightarrow>
          (case (if truthy cold_start then Inr VNone else attr_value s ''initialized_'') of
             Inl e \<Rightarrow> (Some e, s)
           | Inr initialized \<Rightarrow>
               then_do (if truthy cold_start \<or> \<not> truthy initialized
                        then net_step (initialize (externals_of w)) else skip)
                       (partial_fit w X y) s))"

subsection \<open>Traces\<close>

text \<open>A step only adds to the trace, and what it adds satisfies \<open>P\<close>.\<close>

definition adds :: "(action \<Rightarrow> bool) \<Rightarrow> step \<Rightarrow> bool" where
  "adds P f = (\<forall>s. \<exists>added. trace (snd (f s)) = trace s @ added \<and> list_all P added)"

text \<open>The actions \<open>fit_loop\<close> may add once the data is split (or left whole): no call
  of the splitter, the dataset class only on the training and validation parts, steps only
  on the batches of these parts, and validation only when there is a validation part.\<close>

fun fit_action :: "world \<Rightarrow> pyobj \<times> pyobj \<Rightarrow> (pyobj \<times> pyobj) option \<Rightarrow> action \<Rightarrow> bool" where
  "fit_action w train valid (SplitCall a b) = False"
| "fit_action w train valid (DatasetCall a b) = ((a, b) = train \<or> Some (a, b) = valid)"
| "fit_action w train valid (IteratorCall for_training) =
     (for_training \<or> (case valid of Some (Xv, yv) \<Rightarrow> Xv \<noteq> PNone | None \<Rightarrow> False))"
| "fit_action w train valid (TrainStep xi yi) =
     ((xi, yi) \<in> set (iterator_call w (fst train) (snd train) True))"
| "fit_action w train valid (ValidationStep xi yi) =
     (case valid of
        Some (Xv, yv) \<Rightarrow> Xv \<noteq> PNone \<and> (xi, yi) \<in> set (iterator_call w Xv yv False)
      | None \<Rightarrow> False)"
| "fit_action w train valid (Notify h) = (h \<noteq> on_train_begin \<and> h \<noteq> on_train_end)"
| "fit_action w train valid (CallbackHook name h) = (h \<noteq> on_train_begin \<and> h \<noteq> on_train_end)"

text \<open>
  A world for the examples: the first training step raises \<open>e\<close> (or nothing does), the
  splitter keeps all data for training, and every iterator yields one batch.
\<close>

definition example_world :: "exc option \<Rightarrow> world" where
  "example_world e =
     \<lparr>externals_of = example_externals,
      raises = (\<lambda>tr. case last tr of TrainStep xi yi \<Rightarrow> e | _ \<Rightarrow> None),
      train_split_call = (\<lambda>X y. [X, PNone, y, PNone]),
      iterator_call = (\<lambda>X y for_training. [(Array 2, Array 2)]),
      loss_value = (\<lambda>tr. Num 1)\<rparr>"

text \<open>An initialized estimator with one callback, set to train for one epoch.\<close>

definition example_fstate :: fstate where
  "example_fstate =
     \<lparr>net_of = example_initialized
        \<lparr>attrs := AList.update ''max_epochs'' (Val (Num 1)) (attrs example_initialized),
         callbacks_attr := [(''print_log'', Instance PrintLog [] True)]\<rparr>,
      trace = []\<rparr>"

text \<open>The data of the examples.\<close>

definition example_X :: pyobj where
  "example_X = PData (Array 2)"

section \<open>The splitter \<open>CVSplit\<close>\<close>

text \<open>
  The \<open>cv\<close> argument: \<open>None\<close>, a number (an integer, or a float, which may be whole),
  or a cross-validation object of scikit-learn.
\<close>

datatype 'g cv_arg = CvNone | CvNumber real | CvObject 'g

record 'g cvsplit =
  cv_of :: "'g cv_arg"
  stratified :: bool
  random_state :: "int option"

text \<open>\<open>CVSplit.__init__\<close>. The message of the error goes on with the number given.\<close>

definition CVSplit_init :: "'g cv_arg \<Rightarrow> bool \<Rightarrow> int option \<Rightarrow> exc + 'g cvsplit" where
  "CVSplit_init cv strat rs =
     (if (case cv of CvNumber r \<Rightarrow> r \<le> 0 | _ \<Rightarrow> False)
      then Inl (ValueError ''Numbers less than 0 are not allowed for cv'')
      else Inr \<lparr>cv_of = cv, stratified = strat, random_state = rs\<rparr>)"














section \<open>Lemmas about the history\<close>

lemma clean_not_missing: "clean v \<Longrightarrow> \<not> is_missingno v"
  by (cases v) auto

lemma filter_missing_clean: "clean v \<Longrightarrow> filter_missing v = v"
proof (induction v rule: filter_missing.induct)
  case (1 x)
  then have ch: "map filter_missing x = x"
    by (auto simp: list_all_iff intro: map_idI)
  have "filter (\<lambda>c. \<not> is_missingno c) x = x"
    using 1(2) by (auto simp: list_all_iff clean_not_missing)
  then show ?case using ch by (cases x) (auto simp: Let_def)
qed auto

lemma collect_map_Inr: "collect (map (\<lambda>x. Inr (f x)) xs) = Inr (map f xs)"
  by (induction xs) auto

lemma collect_Inr: "list_all (\<lambda>x. g x = Inr (f x)) xs \<Longrightarrow> collect (map g xs) = Inr (map f xs)"
  by (induction xs) auto

lemma partial_index_each:
  "needs_unrolling l \<or> needs_indirection l idx \<Longrightarrow>
   partial_index l idx =
     (case collect (map (\<lambda>n. partial_index n idx) (members l)) of
        Inl e \<Rightarrow> Inl e | Inr vs \<Rightarrow> Inr (VList vs))"
  by (subst partial_index.simps) simp

lemma partial_index_keys:
  "\<not> needs_unrolling l \<Longrightarrow>
   partial_index l (IKeys ks) =
     (case collect (map (\<lambda>n. partial_index l (IKey n)) ks) of
        Inl e \<Rightarrow> Inl e
      | Inr zz \<Rightarrow>
          if is_list_like l then
            (case collect (map py_iter zz) of
               Inl e \<Rightarrow> Inl e
             | Inr cols \<Rightarrow> Inr (VList (map incomplete_mapper (zip_star cols))))
          else Inr (incomplete_mapper zz))"
  by (subst partial_index.simps) (simp add: needs_indirection_def)

lemma partial_index_key:
  "\<not> needs_unrolling l \<Longrightarrow> \<not> is_list_like l \<Longrightarrow>
   partial_index l (IKey k) =
     (case py_getitem l (IKey k) of
        Inl (KeyError k) \<Rightarrow> Inr (Missing (KeyError k))
      | Inl e \<Rightarrow> Inl e
      | Inr v \<Rightarrow> Inr v)"
  by (subst partial_index.simps) (simp add: needs_indirection_def)

lemma partial_index_int:
  "\<not> needs_unrolling l \<Longrightarrow>
   partial_index l (IInt i) =
     (case py_getitem l (IInt i) of
        Inl (KeyError k) \<Rightarrow> Inr (Missing (KeyError k))
      | Inl e \<Rightarrow> Inl e
      | Inr v \<Rightarrow> Inr v)"
  by (subst partial_index.simps) (simp add: needs_indirection_def)

lemma partial_index_slice:
  "\<not> needs_unrolling l \<Longrightarrow>
   partial_index l (ISlice a b) =
     (case py_getitem l (ISlice a b) of
        Inl (KeyError k) \<Rightarrow> Inr (Missing (KeyError k))
      | Inl e \<Rightarrow> Inl e
      | Inr v \<Rightarrow> Inr v)"
  by (subst partial_index.simps) (simp add: needs_indirection_def)

lemma row_not_list: "is_row r \<Longrightarrow> \<not> needs_unrolling r \<and> \<not> is_list_like r"
  by (cases r) (auto simp: is_row_def needs_unrolling_def)

lemma partial_index_row_key:
  "is_row r \<Longrightarrow> partial_index r (IKey k) = Inr (lookup r k)"
  using row_not_list[of r]
  by (cases r)
     (auto simp: partial_index_key is_row_def lookup_def row_fields_def split: option.splits)

lemma not_unrolling_rows:
  "list_all is_row rows \<Longrightarrow> \<not> needs_unrolling (VList rows)"
  by (cases rows) (auto simp: needs_unrolling_def is_row_def split: val.splits)

lemma partial_index_rows_key:
  assumes "list_all is_row rows"
  shows "partial_index (VList rows) (IKey k) = Inr (VList (map (\<lambda>r. lookup r k) rows))"
proof -
  have "collect (map (\<lambda>n. partial_index n (IKey k)) rows) = Inr (map (\<lambda>r. lookup r k) rows)"
    using assms by (intro collect_Inr) (auto simp: list_all_iff partial_index_row_key)
  then show ?thesis
    by (simp add: partial_index_each needs_indirection_def)
qed

lemma zip_star_columns:
  assumes "ks \<noteq> []"
  shows "zip_star (map (\<lambda>k. map (\<lambda>r. f r k) rows) ks) = map (\<lambda>r. map (f r) ks) rows"
proof -
  have "set (map length (map (\<lambda>k. map (\<lambda>r. f r k) rows) ks)) = {length rows}"
    using assms by (cases ks) auto
  then have m: "Min (set (map length (map (\<lambda>k. map (\<lambda>r. f r k) rows) ks))) = length rows"
    by simp
  have "map (\<lambda>i. map (\<lambda>z. z ! i) (map (\<lambda>k. map (\<lambda>r. f r k) rows) ks)) [0..<length rows]
        = map (\<lambda>r. map (f r) ks) rows"
    by (rule nth_equalityI) (simp_all add: comp_def)
  with m assms show ?thesis
    by (simp add: zip_star_def)
qed

lemma partial_index_rows_keys:
  assumes "list_all is_row rows" and "ks \<noteq> []"
  shows "partial_index (VList rows) (IKeys ks)
         = Inr (VList (map (\<lambda>r. incomplete_mapper (map (lookup r) ks)) rows))"
proof -
  have zz: "collect (map (\<lambda>n. partial_index (VList rows) (IKey n)) ks)
              = Inr (map (\<lambda>k. VList (map (\<lambda>r. lookup r k) rows)) ks)"
    using assms(1) by (intro collect_Inr) (simp add: list_all_iff partial_index_rows_key)
  have cols: "collect (map py_iter (map (\<lambda>k. VList (map (\<lambda>r. lookup r k) rows)) ks))
              = Inr (map (\<lambda>k. map (\<lambda>r. lookup r k) rows) ks)"
    by (simp add: comp_def collect_map_Inr)
  show ?thesis
    using not_unrolling_rows[OF assms(1)] zz cols zip_star_columns[OF assms(2), of lookup rows]
    by (simp add: partial_index_keys comp_def)
qed

lemma partial_index_row_keys:
  assumes "is_row r"
  shows "partial_index r (IKeys ks) = Inr (incomplete_mapper (map (lookup r) ks))"
proof -
  have zz: "collect (map (\<lambda>n. partial_index r (IKey n)) ks) = Inr (map (lookup r) ks)"
    using assms by (intro collect_Inr) (simp add: list_all_iff partial_index_row_key)
  show ?thesis using zz row_not_list[OF assms]
    by (simp add: partial_index_keys)
qed

lemma is_row_fields_clean: "is_row r \<Longrightarrow> row_fields r k = Some v \<Longrightarrow> clean v"
  by (cases r) (auto simp: is_row_def row_fields_def list_all_iff dest!: map_of_SomeD)

lemma is_row_the_clean: "is_row r \<Longrightarrow> row_fields r k \<noteq> None \<Longrightarrow> clean (the (row_fields r k))"
  by (auto dest: is_row_fields_clean)

lemma filter_missing_settled:
  assumes "map filter_missing xs = xs"
  shows "filter_missing (VList xs) =
           (if xs \<noteq> [] \<and> filter (\<lambda>c. \<not> is_missingno c) xs = []
            then hd (filter is_missingno xs)
            else VList (filter (\<lambda>c. \<not> is_missingno c) xs))"
  using assms by (simp add: Let_def)

lemma lookup_present: "row_fields r k \<noteq> None \<Longrightarrow> lookup r k = the (row_fields r k)"
  by (auto simp: lookup_def)

lemma lookup_absent: "row_fields r k = None \<Longrightarrow> lookup r k = Missing (KeyError (IKey k))"
  by (auto simp: lookup_def)

lemma lookup_missing_iff: "is_row r \<Longrightarrow> is_missingno (lookup r k) \<longleftrightarrow> row_fields r k = None"
  by (auto simp: lookup_def dest: is_row_fields_clean clean_not_missing split: option.splits)

lemma filter_missing_lookups:
  assumes "is_row r"
  shows "filter is_missingno (map (lookup r) ks)
         = map (\<lambda>k. Missing (KeyError (IKey k))) (filter (\<lambda>k. row_fields r k = None) ks)"
  using assms by (induction ks) (auto simp: lookup_missing_iff lookup_absent)

lemma cell_present:
  assumes "is_row r" "column_selector cs" "has_columns cs r"
  shows "cell cs r = project cs r" and "clean (project cs r)"
proof -
  show "cell cs r = project cs r"
  proof (cases cs)
    case (IKey k)
    with assms show ?thesis by (simp add: cell_def project_def has_columns_def lookup_present)
  next
    case (IKeys ks)
    with assms have none: "filter (\<lambda>k. row_fields r k = None) ks = []"
      by (auto simp: has_columns_def list_all_iff filter_empty_conv)
    have "map (lookup r) ks = map (\<lambda>k. the (row_fields r k)) ks"
      using assms IKeys by (auto simp: has_columns_def list_all_iff lookup_present)
    with none IKeys assms(1) show ?thesis
      by (simp add: cell_def project_def incomplete_mapper_def filter_missing_lookups
               del: filter_False)
  qed (use assms in auto)
  show "clean (project cs r)"
  proof (cases cs)
    case (IKey k)
    with assms show ?thesis
      by (auto simp: project_def has_columns_def dest: is_row_fields_clean)
  next
    case (IKeys ks)
    with assms show ?thesis
      by (auto simp: project_def has_columns_def list_all_iff intro!: is_row_the_clean)
  qed (use assms in auto)
qed

lemma cell_absent:
  assumes "is_row r" "column_selector cs" "\<not> has_columns cs r"
  shows "cell cs r = Missing (KeyError (IKey (first_missing cs r)))"
proof (cases cs)
  case (IKey k)
  with assms show ?thesis
    by (simp add: cell_def has_columns_def first_missing_def lookup_absent)
next
  case (IKeys ks)
  with assms obtain k rest where "filter (\<lambda>k. row_fields r k = None) ks = k # rest"
    by (cases "filter (\<lambda>k. row_fields r k = None) ks")
       (auto simp: has_columns_def list_all_iff filter_empty_conv)
  with IKeys assms(1) show ?thesis
    by (simp add: cell_def incomplete_mapper_def filter_missing_lookups first_missing_def)
qed (use assms in auto)

lemma query_parts_step:
  "query_parts x (part # parts) =
     (case partial_index x part of
        Inl e \<Rightarrow> Inl e
      | Inr x_dirty \<Rightarrow>
          (case settle (filter_missing x_dirty) of Inl e \<Rightarrow> Inl e | Inr x' \<Rightarrow> query_parts x' parts))"
  by (auto simp: settle_def split: sum.splits val.splits)

lemma filter_missing_cells:
  assumes "list_all is_row rows" "column_selector cs"
  shows "map filter_missing (map (cell cs) rows) = map (cell cs) rows"
    and "filter (\<lambda>c. \<not> is_missingno c) (map (cell cs) rows)
         = map (project cs) (filter (has_columns cs) rows)"
proof -
  have each: "filter_missing (cell cs r) = cell cs r" if "r \<in> set rows" for r
    using that assms cell_present[of r cs] cell_absent[of r cs]
    by (cases "has_columns cs r") (auto simp: list_all_iff filter_missing_clean)
  then show "map filter_missing (map (cell cs) rows) = map (cell cs) rows"
    by simp
  show "filter (\<lambda>c. \<not> is_missingno c) (map (cell cs) rows)
         = map (project cs) (filter (has_columns cs) rows)"
    using assms(1)
  proof (induction rows)
    case (Cons r rows)
    then show ?case
      using cell_present[of r cs] cell_absent[of r cs] assms(2)
      by (cases "has_columns cs r") (auto dest: clean_not_missing)
  qed simp
qed

lemma settle_cells:
  assumes "list_all is_row rows" "column_selector cs"
  shows "settle (filter_missing (VList (map (cell cs) rows))) = select_rows cs rows"
proof -
  let ?cells = "map (cell cs) rows"
  let ?kept = "filter (has_columns cs) rows"
  note fm = filter_missing_settled[OF filter_missing_cells(1)[OF assms]]
  note kept = filter_missing_cells(2)[OF assms]
  show ?thesis
  proof (cases "rows \<noteq> [] \<and> ?kept = []")
    case True
    then obtain r rest where rows: "rows = r # rest" by (cases rows) auto
    with True have "\<not> has_columns cs r" by (auto split: if_splits)
    with assms rows have c: "cell cs r = Missing (KeyError (IKey (first_missing cs r)))"
      by (auto intro: cell_absent)
    have "filter_missing (VList ?cells) = hd (filter is_missingno ?cells)"
      using True by (simp only: fm kept) simp
    also have "\<dots> = Missing (KeyError (IKey (first_missing cs r)))"
      using c rows by simp
    finally show ?thesis
      using True rows by (simp add: settle_def select_rows_def)
  next
    case False
    then have "filter_missing (VList ?cells) = VList (map (project cs) ?kept)"
      by (simp only: fm kept) auto
    with False show ?thesis
      by (auto simp: settle_def select_rows_def Let_def)
  qed
qed

lemma list_all_seq_slice: "list_all P xs \<Longrightarrow> list_all P (seq_slice xs a b)"
  by (auto simp: seq_slice_def list_all_iff Let_def dest!: in_set_takeD in_set_dropD)

lemma is_row_clean: "is_row r \<Longrightarrow> clean r"
  by (auto simp: is_row_def split: val.splits)

lemma is_row_settle: "is_row r \<Longrightarrow> settle (filter_missing r) = Inr r"
  by (cases r) (auto simp: is_row_def settle_def)

lemma rows_settle: "list_all is_row rows \<Longrightarrow> settle (filter_missing (VList rows)) = Inr (VList rows)"
proof -
  assume "list_all is_row rows"
  then have "clean (VList rows)" by (auto simp: list_all_iff is_row_clean)
  then have "filter_missing (VList rows) = VList rows" by (rule filter_missing_clean)
  then show ?thesis by (simp add: settle_def)
qed

lemma partial_index_rows_cols:
  assumes "list_all is_row rows" "column_selector cs"
  shows "partial_index (VList rows) cs = Inr (VList (map (cell cs) rows))"
  using assms
  by (cases cs) (simp_all add: partial_index_rows_key partial_index_rows_keys cell_def)

lemma partial_index_row_cols:
  assumes "is_row r" "column_selector cs"
  shows "partial_index r cs = Inr (cell cs r)"
  using assms
  by (cases cs) (simp_all add: partial_index_row_key partial_index_row_keys cell_def)

lemma query_rows_cols:
  assumes "list_all is_row rows" "column_selector cs"
  shows "query_parts (VList rows) [cs] = select_rows cs rows"
  using settle_cells[OF assms] partial_index_rows_cols[OF assms]
  by (simp add: query_parts_step del: query_parts.simps(2) split: sum.splits)

lemma query_row_cols:
  assumes "is_row r" "column_selector cs"
  shows "query_parts r [cs] = select_row cs r"
proof (cases "has_columns cs r")
  case True
  then show ?thesis
    using cell_present[OF assms True] partial_index_row_cols[OF assms]
    by (simp add: select_row_def query_parts_step filter_missing_clean settle_def
          del: query_parts.simps(2) split: val.splits)
       (auto dest: clean_not_missing)
next
  case False
  then show ?thesis
    using cell_absent[OF assms False] partial_index_row_cols[OF assms]
    by (simp add: select_row_def query_parts_step settle_def del: query_parts.simps(2))
qed

lemma query_slice:
  assumes "list_all is_row rows"
  shows "query_parts (VList rows) (ISlice a b # parts) = query_parts (VList (seq_slice rows a b)) parts"
  using not_unrolling_rows[OF assms] rows_settle[OF list_all_seq_slice[OF assms]]
  by (simp add: query_parts_step partial_index_slice del: query_parts.simps(2))

lemma query_int:
  assumes "list_all is_row rows"
  shows "query_parts (VList rows) (IInt i # parts) =
           (case seq_getitem rows i of Inl e \<Rightarrow> Inl e | Inr r \<Rightarrow> query_parts r parts)"
proof (cases "seq_getitem rows i")
  case (Inl e)
  then have "e = IndexError" by (auto simp: seq_getitem_def Let_def split: if_splits)
  with Inl show ?thesis
    using not_unrolling_rows[OF assms]
    by (simp add: query_parts_step partial_index_int del: query_parts.simps(2))
next
  case (Inr r)
  then have "r \<in> set rows" by (auto simp: seq_getitem_def Let_def split: if_splits)
  with assms have "is_row r" by (auto simp: list_all_iff)
  with Inr show ?thesis
    using not_unrolling_rows[OF assms] is_row_settle[of r]
    by (simp add: query_parts_step partial_index_int del: query_parts.simps(2))
qed

lemma wf_epoch_row: "wf_epoch ep \<Longrightarrow> is_row ep"
  by (simp add: wf_epoch_def)

lemma wf_history_rows: "wf_history h \<Longrightarrow> list_all is_row h"
  by (auto simp: wf_history_def list_all_iff wf_epoch_row)

lemma wf_epoch_batches:
  assumes "wf_epoch ep"
  shows "lookup ep ''batches'' = VList (batches_of ep)" and "list_all is_row (batches_of ep)"
  using assms
  by (auto simp: wf_epoch_def lookup_def batches_of_def split: option.splits val.splits)

lemma query_epoch_batches:
  assumes "wf_epoch ep"
  shows "query_parts ep (IKey ''batches'' # parts) = query_parts (VList (batches_of ep)) parts"
  using partial_index_row_key[OF wf_epoch_row[OF assms], of "''batches''"]
    wf_epoch_batches[OF assms] rows_settle[of "batches_of ep"]
  by (simp add: query_parts_step del: query_parts.simps(2))

lemma unsettle_simps: "unsettle (Inl e) = Missing e" "unsettle (Inr v) = v"
  by (simp_all add: unsettle_def)

lemma filter_missing_cells_unsettle:
  assumes "list_all is_row rows" "column_selector cs"
  shows "filter_missing (VList (map (cell cs) rows)) = unsettle (select_rows cs rows)"
proof -
  define x where "x = filter_missing (VList (map (cell cs) rows))"
  have "select_rows cs rows = settle x"
    unfolding x_def by (rule settle_cells[OF assms, symmetric])
  then have "x = unsettle (select_rows cs rows)"
    by (cases x) (simp_all add: settle_def unsettle_def)
  then show ?thesis by (simp only: x_def)
qed

lemma partial_index_rows_slice:
  assumes "list_all is_row rows"
  shows "partial_index (VList rows) (ISlice c d) = Inr (VList (seq_slice rows c d))"
  using not_unrolling_rows[OF assms] by (simp add: partial_index_slice)

lemma rows_clean: "list_all is_row rows \<Longrightarrow> clean (VList rows)"
  by (auto simp: list_all_iff is_row_clean)

lemma clean_settle: "clean v \<Longrightarrow> settle (filter_missing v) = Inr v"
  by (cases v) (simp_all add: filter_missing_clean settle_def del: filter_missing.simps)

lemma wf_epoch_batches_clean: "wf_epoch ep \<Longrightarrow> clean (VList (batches_of ep))"
  using wf_epoch_batches(2)[of ep] by (auto simp: list_all_iff is_row_clean)

lemma select_rows_clean:
  assumes "list_all is_row rows" "column_selector cs" "select_rows cs rows = Inr v"
  shows "clean v"
  using assms cell_present(2)[of _ cs]
  by (auto simp: select_rows_def Let_def list_all_iff split: if_splits)

lemma query_groups_cols:
  assumes "list_all (list_all is_row) groups" "column_selector cs"
  shows "query_parts (VList (map VList groups)) [cs] = select_groups cs groups"
proof (cases groups)
  case Nil
  then show ?thesis
    using query_rows_cols[of "[]" cs] assms(2)
    by (simp add: select_groups_def select_rows_def del: query_parts.simps(2))
next
  case (Cons g gs)
  let ?results = "map (select_rows cs) groups"
  let ?children = "map (\<lambda>g. unsettle (select_rows cs g)) groups"
  have unroll: "needs_unrolling (VList (map VList groups))"
    using Cons by (simp add: needs_unrolling_def)
  have "collect (map (\<lambda>n. partial_index n cs) (map VList groups))
        = Inr (map (\<lambda>g. VList (map (cell cs) g)) groups)"
    unfolding map_map comp_def
    using assms by (intro collect_Inr) (auto simp: list_all_iff partial_index_rows_cols)
  then have dirty: "partial_index (VList (map VList groups)) cs
        = Inr (VList (map (\<lambda>g. VList (map (cell cs) g)) groups))"
    using unroll by (simp add: partial_index_each)
  have children: "map filter_missing (map (\<lambda>g. VList (map (cell cs) g)) groups) = ?children"
    using assms by (simp add: list_all_iff filter_missing_cells_unsettle del: filter_missing.simps)
  have shape: "isl r \<or> (\<exists>v. r = Inr v \<and> clean v)" if "r \<in> set ?results" for r
  proof (cases r)
    case (Inr v)
    from that obtain rows where "rows \<in> set groups" and r: "r = select_rows cs rows" by auto
    with assms(1) have rows: "list_all is_row rows" by (simp add: list_all_iff)
    from r Inr have "select_rows cs rows = Inr v" by simp
    from select_rows_clean[OF rows assms(2) this] have "clean v" .
    with Inr show ?thesis by simp
  qed simp
  have kept: "filter (\<lambda>c. \<not> is_missingno c) (map unsettle rs) = map projr (filter (\<lambda>r. \<not> isl r) rs)"
    if "\<And>r. r \<in> set rs \<Longrightarrow> isl r \<or> (\<exists>v. r = Inr v \<and> clean v)" for rs
    using that
  proof (induction rs)
    case (Cons r rs)
    have r: "isl r \<or> (\<exists>v. r = Inr v \<and> clean v)"
      using Cons.prems[of r] by simp
    have "filter (\<lambda>c. \<not> is_missingno c) (map unsettle rs) = map projr (filter (\<lambda>r. \<not> isl r) rs)"
      using Cons.prems by (intro Cons.IH) simp
    with r show ?case
      by (cases r) (auto simp: unsettle_simps dest: clean_not_missing)
  qed simp
  have kept': "filter (\<lambda>c. \<not> is_missingno c) ?children = map projr (filter (\<lambda>r. \<not> isl r) ?results)"
    using kept[of ?results] shape by (simp add: comp_def)
  have fm: "filter_missing (VList (map (\<lambda>g. VList (map (cell cs) g)) groups))
            = (if map projr (filter (\<lambda>r. \<not> isl r) ?results) = []
               then hd (filter is_missingno ?children)
               else VList (map projr (filter (\<lambda>r. \<not> isl r) ?results)))"
    using Cons unfolding filter_missing.simps children Let_def kept'
    by simp
  show ?thesis
  proof (cases "map projr (filter (\<lambda>r. \<not> isl r) ?results) = []")
    case True
    then have "isl (select_rows cs g)" using Cons by (auto split: if_splits)
    then obtain e where e: "select_rows cs g = Inl e" by (cases "select_rows cs g") auto
    then have "hd (filter is_missingno ?children) = Missing e"
      using Cons by (simp add: unsettle_def)
    with True fm dirty e Cons show ?thesis
      by (simp add: query_parts_step settle_def select_groups_def del: query_parts.simps(2))
  next
    case False
    with fm dirty Cons show ?thesis
      by (simp add: query_parts_step settle_def select_groups_def del: query_parts.simps(2))
  qed
qed

lemma query_batches_of_all:
  assumes "list_all wf_epoch eps"
  shows "query_parts (VList eps) (IKey ''batches'' # parts)
         = query_parts (VList (map (\<lambda>ep. VList (batches_of ep)) eps)) parts"
proof -
  have rows: "list_all is_row eps" using assms by (auto simp: list_all_iff wf_epoch_row)
  have "partial_index (VList eps) (IKey ''batches'') = Inr (VList (map (\<lambda>r. lookup r ''batches'') eps))"
    by (rule partial_index_rows_key[OF rows])
  moreover have "map (\<lambda>r. lookup r ''batches'') eps = map (\<lambda>ep. VList (batches_of ep)) eps"
    using assms by (auto simp: list_all_iff wf_epoch_batches)
  moreover have "clean (VList (map (\<lambda>ep. VList (batches_of ep)) eps))"
    using assms wf_epoch_batches_clean by (auto simp: list_all_iff comp_def)
  note clean_settle[OF this]
  ultimately show ?thesis
    by (simp add: query_parts_step del: query_parts.simps(2) filter_missing.simps)
qed

lemma query_groups_slice:
  assumes "list_all (list_all is_row) groups"
  shows "query_parts (VList (map VList groups)) (ISlice c d # parts)
         = query_parts (VList (map (\<lambda>g. VList (seq_slice g c d)) groups)) parts"
proof (cases groups)
  case Nil
  then show ?thesis
    using query_slice[of "[]" c d parts] by (simp add: seq_slice_def del: query_parts.simps(2))
next
  case (Cons g gs)
  then have unroll: "needs_unrolling (VList (map VList groups))"
    by (simp add: needs_unrolling_def)
  have "collect (map (\<lambda>n. partial_index n (ISlice c d)) (map VList groups))
        = Inr (map (\<lambda>g. VList (seq_slice g c d)) groups)"
    unfolding map_map comp_def
    using assms
    by (intro collect_Inr) (auto simp: list_all_iff partial_index_rows_slice)
  then have dirty: "partial_index (VList (map VList groups)) (ISlice c d)
        = Inr (VList (map (\<lambda>g. VList (seq_slice g c d)) groups))"
    using unroll by (simp add: partial_index_each)
  have "clean (VList (seq_slice g c d))" if "g \<in> set groups" for g
    using that assms by (intro rows_clean list_all_seq_slice) (simp add: list_all_iff)
  then have "list_all clean (map (\<lambda>g. VList (seq_slice g c d)) groups)"
    unfolding list_all_iff by auto
  then have "clean (VList (map (\<lambda>g. VList (seq_slice g c d)) groups))"
    by simp
  note clean_settle[OF this]
  with dirty show ?thesis
    by (simp add: query_parts_step del: query_parts.simps(2) filter_missing.simps)
qed

lemma row_fields_dict_set: "row_fields (VDict (dict_set d k v)) = (row_fields (VDict d))(k \<mapsto> v)"
  by (simp add: row_fields_def dict_set_def update_conv')

lemma clean_dict_set: "clean (VDict d) \<Longrightarrow> clean v \<Longrightarrow> clean (VDict (dict_set d k v))"
  by (induction d) (auto simp: dict_set_def)

lemma is_row_dict_set: "is_row (VDict d) \<Longrightarrow> clean v \<Longrightarrow> is_row (VDict (dict_set d k v))"
  using clean_dict_set[of d v k] by (simp add: is_row_def)

lemma wf_epoch_cases:
  assumes "wf_epoch ep"
  obtains d where "ep = VDict d" "map_of d ''batches'' = Some (VList (batches_of ep))"
    "list_all is_row (batches_of ep)" "clean (VDict d)"
  using assms
  by (cases ep) (auto simp: wf_epoch_def is_row_def row_fields_def batches_of_def split: option.splits val.splits)

lemma is_row_cases:
  assumes "is_row r" obtains d where "r = VDict d" "clean (VDict d)"
  using assms by (cases r) (auto simp: is_row_def)

lemma wf_epochI:
  assumes "clean (VDict d)" "map_of (dict_set d ''batches'' (VList bs)) ''batches'' = Some (VList bs)"
    "list_all is_row bs"
  shows "wf_epoch (VDict (dict_set d ''batches'' (VList bs)))"
    and "batches_of (VDict (dict_set d ''batches'' (VList bs))) = bs"
  using assms clean_dict_set[of d "VList bs" "''batches''"] rows_clean[of bs]
  by (simp_all add: wf_epoch_def batches_of_def row_fields_def is_row_def del: clean.simps)

lemma map_of_dict_set: "map_of (dict_set d k v) k = Some v"
  by (simp add: dict_set_def update_conv')

lemma wf_epoch_fresh: "wf_epoch fresh_epoch"
  by (simp add: wf_epoch_def fresh_epoch_def is_row_def row_fields_def)

lemma batches_of_fresh: "batches_of fresh_epoch = []"
  by (simp add: batches_of_def fresh_epoch_def row_fields_def)

lemma apply_op_last:
  "c \<noteq> NewEpoch \<Longrightarrow>
   apply_op (h0 @ [ep]) c = (case apply_epoch ep c of Inl e \<Rightarrow> Inl e | Inr ep' \<Rightarrow> Inr (h0 @ [ep']))"
  by (cases c)
     (simp_all add: new_batch_def record_epoch_def record_batch_def with_last_def split: sum.splits)

lemma apply_op_empty: "c \<noteq> NewEpoch \<Longrightarrow> isl (apply_op [] c)"
  by (cases c) (simp_all add: new_batch_def record_epoch_def record_batch_def with_last_def)

lemma apply_epoch_wf:
  assumes "wf_epoch ep" "op_ok c" "apply_epoch ep c = Inr ep'"
  shows "wf_epoch ep' \<and> length (batches_of ep') = length (batches_of ep) + (if c = NewBatch then 1 else 0)"
proof -
  from assms(1) obtain d where ep: "ep = VDict d"
    and b: "map_of d ''batches'' = Some (VList (batches_of ep))"
    and rows: "list_all is_row (batches_of ep)" and cl: "clean (VDict d)"
    by (rule wf_epoch_cases)
  show ?thesis
  proof (cases c)
    case NewEpoch
    with assms show ?thesis by simp
  next
    case (Record attr v)
    with assms ep have ep': "ep' = VDict (dict_set d attr v)" and ok: "attr \<noteq> ''batches''" "clean v"
      by auto
    have "row_fields ep' ''batches'' = Some (VList (batches_of ep))"
      using ok b by (simp add: ep' row_fields_dict_set) (simp add: row_fields_def)
    then show ?thesis
      using rows is_row_dict_set[of d v attr] cl ok Record
      by (simp add: wf_epoch_def batches_of_def ep' is_row_def)
  next
    case NewBatch
    with assms ep b have ep': "ep' = VDict (dict_set d ''batches'' (VList (batches_of ep @ [VDict []])))"
      by (auto simp: with_key_def)
    have "is_row (VDict [])" by (simp add: is_row_def)
    then have rows': "list_all is_row (batches_of ep @ [VDict []])" using rows by simp
    from wf_epochI[OF cl map_of_dict_set rows'] NewBatch show ?thesis
      by (simp add: ep')
  next
    case (RecordBatch attr v)
    with assms(2) have v: "clean v" by simp
    from RecordBatch assms(3) ep b obtain bs' where
      bs': "with_last_val (VList (batches_of ep)) (\<lambda>b. py_setitem b attr v) = Inr bs'"
      and ep': "ep' = VDict (dict_set d ''batches'' bs')"
      by (auto simp: with_key_def split: sum.splits)
    from bs' have ne: "batches_of ep \<noteq> []" by (auto simp: with_last_def split: if_splits)
    then have "is_row (last (batches_of ep))" using rows by (simp add: list_all_iff)
    then obtain bd where bd: "last (batches_of ep) = VDict bd" "clean (VDict bd)"
      by (rule is_row_cases)
    with bs' ne have bs'_eq: "bs' = VList (butlast (batches_of ep) @ [VDict (dict_set bd attr v)])"
      by (auto simp: with_last_def)
    have "list_all is_row (butlast (batches_of ep))"
      using rows by (auto simp: list_all_iff dest: in_set_butlastD)
    then have rows': "list_all is_row (butlast (batches_of ep) @ [VDict (dict_set bd attr v)])"
      using is_row_dict_set[of bd v attr] bd v by (simp add: is_row_def)
    from wf_epochI[OF cl map_of_dict_set rows'] RecordBatch ne show ?thesis
      by (simp add: ep' bs'_eq)
  qed
qed

lemma run_ops_append:
  "run_ops h (xs @ ys) = (case run_ops h xs of Inl e \<Rightarrow> Inl e | Inr h' \<Rightarrow> run_ops h' ys)"
  by (induction xs arbitrary: h) (auto split: sum.splits)

lemma run_ops_last:
  "NewEpoch \<notin> set cs \<Longrightarrow>
   run_ops (h0 @ [ep]) cs = (case run_epoch ep cs of Inl e \<Rightarrow> Inl e | Inr ep' \<Rightarrow> Inr (h0 @ [ep']))"
  by (induction cs arbitrary: ep) (auto simp: apply_op_last split: sum.splits)

lemma run_ops_empty:
  "NewEpoch \<notin> set cs \<Longrightarrow> run_ops [] cs = Inr h \<Longrightarrow> cs = [] \<and> h = []"
proof (cases cs)
  case (Cons c cs')
  assume "NewEpoch \<notin> set cs" "run_ops [] cs = Inr h"
  with Cons apply_op_empty[of c] show ?thesis
    by (cases "apply_op [] c") auto
qed simp

lemma run_ops_length:
  "run_ops h cs = Inr h' \<Longrightarrow> length h' = length h + epochs_in cs"
proof (induction cs arbitrary: h)
  case (Cons c cs)
  then obtain h1 where h1: "apply_op h c = Inr h1" and rest: "run_ops h1 cs = Inr h'"
    by (auto split: sum.splits)
  have "length h1 = length h + (if c = NewEpoch then 1 else 0)"
    using h1
    by (cases c)
       (auto simp: new_epoch_def new_batch_def record_epoch_def record_batch_def with_last_def
             split: if_splits sum.splits)
  with Cons.IH[OF rest] show ?case by (simp add: epochs_in_def)
qed (simp add: epochs_in_def)

lemma run_epoch_wf:
  assumes "wf_epoch ep" "list_all op_ok cs" "run_epoch ep cs = Inr ep'"
  shows "wf_epoch ep' \<and>
         length (batches_of ep') = length (batches_of ep) + length (filter (\<lambda>c. c = NewBatch) cs)"
  using assms
proof (induction cs arbitrary: ep)
  case (Cons c cs)
  then obtain ep1 where ep1: "apply_epoch ep c = Inr ep1" and rest: "run_epoch ep1 cs = Inr ep'"
    by (auto split: sum.splits)
  from apply_epoch_wf[OF Cons.prems(1) _ ep1] Cons.prems(2)
  have "wf_epoch ep1" "length (batches_of ep1) = length (batches_of ep) + (if c = NewBatch then 1 else 0)"
    by simp_all
  with Cons.IH[OF _ _ rest] Cons.prems(2) show ?case by auto
qed simp

lemma ops_split:
  assumes "NewEpoch \<in> set cs"
  obtains pre where "cs = pre @ NewEpoch # since_last_epoch cs" "NewEpoch \<notin> set (since_last_epoch cs)"
proof -
  let ?post = "takeWhile (\<lambda>c. c \<noteq> NewEpoch) (rev cs)"
  let ?rest = "dropWhile (\<lambda>c. c \<noteq> NewEpoch) (rev cs)"
  from assms have "?rest \<noteq> []" by (simp add: dropWhile_eq_Nil_conv) 
  then obtain x xs where rest: "?rest = x # xs" by (cases ?rest) auto
  then have "x = NewEpoch" using hd_dropWhile[of "\<lambda>c. c \<noteq> NewEpoch" "rev cs"] by auto
  with rest have "rev cs = ?post @ NewEpoch # xs"
    using takeWhile_dropWhile_id[of "\<lambda>c. c \<noteq> NewEpoch" "rev cs"] by simp
  then have "cs = rev xs @ NewEpoch # rev ?post"
    by (metis append.assoc append_Cons append_Nil rev.simps(2) rev_append rev_rev_ident)
  moreover have "NewEpoch \<notin> set (rev ?post)"
    by (auto dest: set_takeWhileD)
  ultimately show ?thesis using that by (simp add: since_last_epoch_def)
qed

lemma no_epoch_since: "NewEpoch \<notin> set cs \<Longrightarrow> since_last_epoch cs = cs"
proof -
  assume "NewEpoch \<notin> set cs"
  then have "takeWhile (\<lambda>c. c \<noteq> NewEpoch) (rev cs) = rev cs"
    by (intro takeWhile_eq_all_conv[THEN iffD2]) auto
  then show ?thesis by (simp only: since_last_epoch_def rev_rev_ident)
qed

lemma epochs_in_zero: "epochs_in cs = 0 \<longleftrightarrow> NewEpoch \<notin> set cs"
  by (auto simp: epochs_in_def filter_empty_conv)

lemma run_ops_shape:
  assumes run: "run_ops [] cs = Inr h" and ok: "list_all op_ok cs"
  shows "wf_history h"
    and "length h = epochs_in cs"
    and "epochs_in cs = 0 \<Longrightarrow> batches_in cs = 0"
    and "0 < epochs_in cs \<Longrightarrow>
           run_epoch fresh_epoch (since_last_epoch cs) = Inr (last h) \<and>
           length (batches_of (last h)) = batches_in cs"
proof -
  show len: "length h = epochs_in cs" using run_ops_length[OF run] by simp
  show "batches_in cs = 0" if "epochs_in cs = 0"
    using that run run_ops_empty[of cs h] by (simp add: epochs_in_zero batches_in_def since_last_epoch_def)
  have wf_gen: "wf_history h'" if "run_ops h0 xs = Inr h'" "wf_history h0" "list_all op_ok xs" for h0 xs h'
    using that
  proof (induction xs arbitrary: h0)
    case (Cons c xs)
    then obtain h1 where h1: "apply_op h0 c = Inr h1" and rest: "run_ops h1 xs = Inr h'"
      by (auto split: sum.splits)
    have "wf_history h1"
    proof (cases "c = NewEpoch")
      case True
      with h1 Cons.prems(2) show ?thesis
        using wf_epoch_fresh by (auto simp: new_epoch_def wf_history_def fresh_epoch_def)
    next
      case False
      show ?thesis
      proof (cases h0 rule: rev_cases)
        case Nil
        with False h1 apply_op_empty[of c] show ?thesis by simp
      next
        case (snoc h00 ep)
        with False h1 obtain ep' where ep': "apply_epoch ep c = Inr ep'" and h1_eq: "h1 = h00 @ [ep']"
          by (auto simp: apply_op_last split: sum.splits)
        from snoc Cons.prems(2) have "wf_epoch ep" "wf_history h00" by (simp_all add: wf_history_def)
        with apply_epoch_wf[OF _ _ ep'] Cons.prems(3) h1_eq show ?thesis
          by (simp add: wf_history_def)
      qed
    qed
    with Cons.IH[OF rest] Cons.prems(3) show ?case by simp
  qed simp
  show "wf_history h" using wf_gen[OF run] ok by (simp add: wf_history_def)
  show "run_epoch fresh_epoch (since_last_epoch cs) = Inr (last h) \<and>
        length (batches_of (last h)) = batches_in cs" if "0 < epochs_in cs"
  proof -
    from that have "NewEpoch \<in> set cs" using epochs_in_zero[of cs] by auto
    then obtain pre where cs: "cs = pre @ NewEpoch # since_last_epoch cs"
      and post: "NewEpoch \<notin> set (since_last_epoch cs)" by (rule ops_split)
    let ?post = "since_last_epoch cs"
    from run obtain h0 where h0: "run_ops [] pre = Inr h0"
      and rest: "run_ops (h0 @ [fresh_epoch]) ?post = Inr h"
      by (subst (asm) cs) (auto simp: run_ops_append new_epoch_def fresh_epoch_def split: sum.splits)
    from rest post obtain ep' where ep': "run_epoch fresh_epoch ?post = Inr ep'" and h: "h = h0 @ [ep']"
      by (auto simp: run_ops_last split: sum.splits)
    have "list_all op_ok ?post" using ok by (subst (asm) cs) simp
    from run_epoch_wf[OF wf_epoch_fresh this ep'] ep' h show ?thesis
      by (simp add: batches_of_fresh batches_in_def)
  qed
qed

lemma seq_getitem_last: "xs \<noteq> [] \<Longrightarrow> seq_getitem xs (int (length xs) - 1) = Inr (last xs)"
  by (cases xs rule: rev_cases) (auto simp: seq_getitem_def Let_def nth_append)

lemma seq_getitem_minus1:
  "seq_getitem xs (- 1) = (if xs = [] then Inl IndexError else Inr (last xs))"
  by (cases xs rule: rev_cases) (auto simp: seq_getitem_def Let_def nth_append)

lemma record_batch_query:
  assumes wf: "wf_history h" and ne: "h \<noteq> []" and bne: "batches_of (last h) \<noteq> []" and L: "clean L"
  shows "\<exists>h'. record_batch h attr L = Inr h' \<and>
           getitem h' (QTuple [IInt (int (length h) - 1), IKey ''batches'',
                               IInt (int (length (batches_of (last h))) - 1), IKey attr]) = Inr L"
proof -
  from ne obtain h0 ep where h: "h = h0 @ [ep]" by (cases h rule: rev_cases) auto
  with bne have bne': "batches_of ep \<noteq> []" by simp
  from wf h have wfep: "wf_epoch ep" and wf0: "wf_history h0" by (simp_all add: wf_history_def)
  from wfep obtain d where ep: "ep = VDict d"
    and b: "map_of d ''batches'' = Some (VList (batches_of ep))"
    and rows: "list_all is_row (batches_of ep)" and cl: "clean (VDict d)"
    by (rule wf_epoch_cases)
  from bne' rows have "is_row (last (batches_of ep))" by (simp add: list_all_iff)
  then obtain bd where bd: "last (batches_of ep) = VDict bd" "clean (VDict bd)"
    by (rule is_row_cases)
  define r' where "r' = VDict (dict_set bd attr L)"
  define bs' where "bs' = butlast (batches_of ep) @ [r']"
  define ep' where "ep' = VDict (dict_set d ''batches'' (VList bs'))"
  define h' where "h' = h0 @ [ep']"
  have rec: "record_batch h attr L = Inr h'"
    using bne' bd b
    by (simp add: record_batch_def h with_last_def with_key_def ep h'_def ep'_def bs'_def r'_def)
  have r': "is_row r'" using is_row_dict_set[of bd L attr] bd L by (simp add: r'_def is_row_def)
  have "list_all is_row (butlast (batches_of ep))"
    using rows by (auto simp: list_all_iff dest: in_set_butlastD)
  with r' have rows': "list_all is_row bs'" by (simp add: bs'_def)
  from wf_epochI[OF cl map_of_dict_set rows'] have wfep': "wf_epoch ep'" and bo: "batches_of ep' = bs'"
    by (simp_all add: ep'_def)
  from wf0 wfep' have wf': "wf_history h'" by (simp add: h'_def wf_history_def)
  have len: "length h' = length h" "length bs' = length (batches_of ep)"
    using bne' by (simp_all add: h'_def h bs'_def)
  have s1: "seq_getitem h' (int (length h) - 1) = Inr ep'"
    using seq_getitem_last[of h'] by (simp add: h'_def h)
  have "seq_getitem bs' (int (length bs') - 1) = Inr (last bs')"
    by (rule seq_getitem_last) (simp add: bs'_def)
  then have s3: "seq_getitem bs' (int (length (batches_of ep)) - 1) = Inr r'"
    by (simp only: len) (simp add: bs'_def)
  have has: "has_columns (IKey attr) r'" "project (IKey attr) r' = L"
    by (simp_all add: has_columns_def project_def r'_def row_fields_dict_set)
  have "query_parts (VList h') [IInt (int (length h) - 1), IKey ''batches'',
          IInt (int (length (batches_of ep)) - 1), IKey attr] = Inr L"
    using has r'
    by (simp only: query_int[OF wf_history_rows[OF wf']] s1 sum.case
          query_epoch_batches[OF wfep'] bo query_int[OF rows'] s3
          query_row_cols[OF r' column_selector.simps(1)[THEN iffD2, OF TrueI]] select_row_def if_True)
  with rec show ?thesis by (auto simp: h)
qed

lemma record_batch_no_batch:
  assumes wf: "wf_history h" and bne: "h = [] \<or> batches_of (last h) = []"
  shows "record_batch h attr L = Inl IndexError"
proof (cases h rule: rev_cases)
  case Nil
  then show ?thesis by (simp add: record_batch_def with_last_def)
next
  case (snoc h0 ep)
  with wf have "wf_epoch ep" by (simp add: wf_history_def)
  then obtain d where "ep = VDict d" "map_of d ''batches'' = Some (VList (batches_of ep))"
    by (rule wf_epoch_cases)
  with snoc bne show ?thesis
    by (simp add: record_batch_def with_last_def with_key_def)
qed

section \<open>Claims about the history\<close>

text \<open>
  Claim C1. In a multi-axis query whose last part is a column selector (one key, or a
  non-empty tuple of keys), the rows that lack one of the named keys are exactly the rows
  left out of the result, and a result level emptied that way is not returned:
  \<^item> \<open>history[a:b, cols]\<close> keeps the selected epochs that have every key
    (\<open>select_rows\<close>); when epochs were selected and none has them all, the query raises
    the \<open>KeyError\<close> of the first key the first selected epoch lacks;
  \<^item> \<open>history[i, cols]\<close> returns the projection of epoch \<open>i\<close> or raises that
    \<open>KeyError\<close>;
  \<^item> \<open>history[i, 'batches', c:d, cols]\<close> does the same with the batches of epoch
    \<open>i\<close>;
  \<^item> \<open>history[a:b, 'batches', c:d, cols]\<close> filters the batches of every selected
    epoch, leaves out an epoch whose selected batches all lack a key, and raises the first
    such \<open>KeyError\<close> when that leaves no epoch (\<open>select_groups\<close>).
\<close>

theorem missing_columns_excluded:
  assumes "wf_history h" and "column_selector cs"
  shows "getitem h (QTuple [ISlice a b, cs]) = select_rows cs (seq_slice h a b) \<and>
         getitem h (QTuple [IInt i, cs]) =
           (case seq_getitem h i of Inl e \<Rightarrow> Inl e | Inr ep \<Rightarrow> select_row cs ep) \<and>
         getitem h (QTuple [IInt i, IKey ''batches'', ISlice c d, cs]) =
           (case seq_getitem h i of
              Inl e \<Rightarrow> Inl e
            | Inr ep \<Rightarrow> select_rows cs (seq_slice (batches_of ep) c d)) \<and>
         getitem h (QTuple [ISlice a b, IKey ''batches'', ISlice c d, cs]) =
           select_groups cs (map (\<lambda>ep. seq_slice (batches_of ep) c d) (seq_slice h a b))"
proof -
  from assms(1) have rows: "list_all is_row h" by (rule wf_history_rows)
  have sel: "list_all wf_epoch (seq_slice h a b)"
    using assms(1) unfolding wf_history_def by (rule list_all_seq_slice)
  then have sel_rows: "list_all is_row (seq_slice h a b)"
    by (auto simp: list_all_iff wf_epoch_row)
  have epoch: "wf_epoch ep" if "seq_getitem h i = Inr ep" for ep
    using that assms(1)
    by (auto simp: seq_getitem_def Let_def wf_history_def list_all_iff split: if_splits)
  have A: "getitem h (QTuple [ISlice a b, cs]) = select_rows cs (seq_slice h a b)"
    by (simp only: getitem.simps query_slice[OF rows] query_rows_cols[OF sel_rows assms(2)])
  have B: "getitem h (QTuple [IInt i, cs]) =
           (case seq_getitem h i of Inl e \<Rightarrow> Inl e | Inr ep \<Rightarrow> select_row cs ep)"
    using epoch assms(2)
    by (cases "seq_getitem h i")
       (simp_all only: getitem.simps query_int[OF rows] sum.case query_row_cols wf_epoch_row)
  have C: "getitem h (QTuple [IInt i, IKey ''batches'', ISlice c d, cs]) =
           (case seq_getitem h i of
              Inl e \<Rightarrow> Inl e
            | Inr ep \<Rightarrow> select_rows cs (seq_slice (batches_of ep) c d))"
  proof (cases "seq_getitem h i")
    case (Inl e)
    then show ?thesis by (simp only: getitem.simps query_int[OF rows] sum.case)
  next
    case (Inr ep)
    from epoch[OF this] have wf: "wf_epoch ep" .
    note bs = wf_epoch_batches(2)[OF wf]
    show ?thesis
      by (simp only: getitem.simps query_int[OF rows] Inr sum.case query_epoch_batches[OF wf]
            query_slice[OF bs] query_rows_cols[OF list_all_seq_slice[OF bs] assms(2)])
  qed
  have groups: "list_all (list_all is_row) (map batches_of (seq_slice h a b))"
    using sel wf_epoch_batches(2) by (auto simp: list_all_iff)
  then have groups': "list_all (list_all is_row)
       (map (\<lambda>ep. seq_slice (batches_of ep) c d) (seq_slice h a b))"
    by (auto simp: list_all_iff intro: list_all_seq_slice[unfolded list_all_iff, rule_format])
  have D: "getitem h (QTuple [ISlice a b, IKey ''batches'', ISlice c d, cs]) =
           select_groups cs (map (\<lambda>ep. seq_slice (batches_of ep) c d) (seq_slice h a b))"
    using query_groups_slice[OF groups, of c d "[cs]"] query_groups_cols[OF groups' assms(2)]
    by (simp only: getitem.simps query_slice[OF rows] query_batches_of_all[OF sel])
       (simp add: comp_def del: query_parts.simps)
  from A B C D show ?thesis by simp
qed

theorem missing_columns_excluded_witness:
  "wf_history example_history \<and>
   column_selector (IKeys [''train_loss'', ''valid_loss'']) \<and>
   getitem example_history (QTuple [ISlice None None, IKeys [''train_loss'', ''valid_loss'']])
     = Inr (VList [VTuple [Num 5, Num 7]]) \<and>
   getitem example_history (QTuple [IInt 1, IKeys [''train_loss'', ''valid_loss'']])
     = Inl (KeyError (IKey ''valid_loss'')) \<and>
   getitem example_history
       (QTuple [IInt 1, IKey ''batches'', ISlice None None, IKeys [''train_loss'', ''valid_loss'']])
     = Inl (KeyError (IKey ''train_loss'')) \<and>
   getitem example_history
       (QTuple [ISlice None None, IKey ''batches'', ISlice None None, IKeys [''train_loss'', ''valid_loss'']])
     = Inl (KeyError (IKey ''valid_loss''))"
proof -
  let ?cs = "IKeys [''train_loss'', ''valid_loss'']"
  have wf: "wf_history example_history" by code_simp
  have cs: "column_selector ?cs" by simp
  have 1: "select_rows ?cs (seq_slice example_history None None) = Inr (VList [VTuple [Num 5, Num 7]])"
    by code_simp
  have 2: "(case seq_getitem example_history 1 of Inl e \<Rightarrow> Inl e | Inr ep \<Rightarrow> select_row ?cs ep)
           = Inl (KeyError (IKey ''valid_loss''))"
    by code_simp
  have 3: "(case seq_getitem example_history 1 of
              Inl e \<Rightarrow> Inl e
            | Inr ep \<Rightarrow> select_rows ?cs (seq_slice (batches_of ep) None None))
           = Inl (KeyError (IKey ''train_loss''))"
    by code_simp
  have 4: "select_groups ?cs
             (map (\<lambda>ep. seq_slice (batches_of ep) None None) (seq_slice example_history None None))
           = Inl (KeyError (IKey ''valid_loss''))"
    by code_simp
  from missing_columns_excluded[OF wf cs, of None None 1 None None] wf cs
  show ?thesis by (simp only: 1 2 3 4)
qed

text \<open>
  Claim C6. Let a sequence of \<open>new_epoch\<close>, \<open>record\<close>, \<open>new_batch\<close> and
  \<open>record_batch\<close> calls run without error from the empty history, with \<open>N\<close> calls of
  \<open>new_epoch\<close> among them and \<open>b\<close> calls of \<open>new_batch\<close> since the last one. Then
  the history has \<open>N\<close> epochs; \<open>history[-1]\<close> is the \<open>N\<close>-th epoch row, which is
  what the calls since the last \<open>new_epoch\<close> build on a fresh row, with its \<open>b\<close>
  batches (an \<open>IndexError\<close> when there is no epoch); and recording \<open>L\<close> under
  \<open>attr\<close> with \<open>record_batch\<close> then querying
  \<open>(N - 1, 'batches', b - 1, attr)\<close> returns \<open>L\<close> (\<open>record_batch\<close> raises
  \<open>IndexError\<close> when the current epoch has no batch).
\<close>

theorem history_round_trip:
  assumes "run_ops [] cs = Inr h" and "list_all op_ok cs" and "clean L"
  shows "length h = epochs_in cs \<and>
         getitem h (QInt (- 1)) =
           (if epochs_in cs = 0 then Inl IndexError else Inr (h ! (epochs_in cs - 1))) \<and>
         (if epochs_in cs = 0 then cs = []
          else run_ops [fresh_epoch] (since_last_epoch cs) = Inr [h ! (epochs_in cs - 1)] \<and>
               length (batches_of (h ! (epochs_in cs - 1))) = batches_in cs) \<and>
         (if batches_in cs = 0 then record_batch h attr L = Inl IndexError
          else \<exists>h'. record_batch h attr L = Inr h' \<and>
                 getitem h' (QTuple [IInt (int (epochs_in cs) - 1), IKey ''batches'',
                                     IInt (int (batches_in cs) - 1), IKey attr]) = Inr L)"
proof -
  note shape = run_ops_shape[OF assms(1,2)]
  have len: "length h = epochs_in cs" by (rule shape(2))
  have last: "h ! (epochs_in cs - 1) = last h" if "0 < epochs_in cs"
    using that len by (cases h rule: rev_cases) (auto simp: nth_append)
  have A: "getitem h (QInt (- 1)) =
           (if epochs_in cs = 0 then Inl IndexError else Inr (h ! (epochs_in cs - 1)))"
  proof (cases "epochs_in cs = 0")
    case True
    with len show ?thesis by (simp add: seq_getitem_minus1)
  next
    case False
    with len have "h \<noteq> []" by auto
    with False last show ?thesis by (simp add: seq_getitem_minus1)
  qed
  have B: "if epochs_in cs = 0 then cs = []
          else run_ops [fresh_epoch] (since_last_epoch cs) = Inr [h ! (epochs_in cs - 1)] \<and>
               length (batches_of (h ! (epochs_in cs - 1))) = batches_in cs"
  proof (cases "epochs_in cs = 0")
    case True
    then show ?thesis using run_ops_empty[OF _ assms(1)] by (simp add: epochs_in_zero)
  next
    case False
    then have pos: "0 < epochs_in cs" by simp
    then have "NewEpoch \<in> set cs" using epochs_in_zero[of cs] by auto
    then obtain pre where "NewEpoch \<notin> set (since_last_epoch cs)" by (rule ops_split)
    from run_ops_last[OF this, of "[]" fresh_epoch] shape(4)[OF pos] last[OF pos] False
    show ?thesis by simp
  qed
  have C: "if batches_in cs = 0 then record_batch h attr L = Inl IndexError
          else \<exists>h'. record_batch h attr L = Inr h' \<and>
                 getitem h' (QTuple [IInt (int (epochs_in cs) - 1), IKey ''batches'',
                                     IInt (int (batches_in cs) - 1), IKey attr]) = Inr L"
  proof (cases "batches_in cs = 0")
    case True
    have "h = [] \<or> batches_of (last h) = []"
    proof (cases "epochs_in cs = 0")
      case True
      with len show ?thesis by simp
    next
      case False
      with shape(4) \<open>batches_in cs = 0\<close> show ?thesis by simp
    qed
    from record_batch_no_batch[OF shape(1) this] True show ?thesis by simp
  next
    case False
    then have pos: "0 < epochs_in cs" using shape(3) by (cases "epochs_in cs = 0") auto
    with len have ne: "h \<noteq> []" by auto
    from shape(4)[OF pos] have b: "length (batches_of (last h)) = batches_in cs" by simp
    with False have bne: "batches_of (last h) \<noteq> []" by auto
    from record_batch_query[OF shape(1) ne bne assms(3), of attr] False len b
    show ?thesis by simp
  qed
  from len A B C show ?thesis by simp
qed

theorem history_round_trip_witness:
  "run_ops [] example_calls = Inr example_result \<and>
   list_all op_ok example_calls \<and> clean (Num 9) \<and>
   length example_result = 2 \<and>
   getitem example_result (QInt (- 1)) = Inr (example_result ! 1) \<and>
   (\<exists>h'. record_batch example_result ''train_loss'' (Num 9) = Inr h' \<and>
      getitem h' (QTuple [IInt 1, IKey ''batches'', IInt 1, IKey ''train_loss'']) = Inr (Num 9))"
proof -
  have run: "run_ops [] example_calls = Inr example_result" by code_simp
  have ok: "list_all op_ok example_calls" by code_simp
  have L: "clean (Num 9)" by simp
  have e: "epochs_in example_calls = 2" by code_simp
  have b: "batches_in example_calls = 2" by code_simp
  from history_round_trip[OF run ok L, of "''train_loss''"] run ok
  show ?thesis by (simp add: e b)
qed

section \<open>Claims about the callbacks\<close>

lemma yield_from_partition:
  "yield_from items print_logs =
     filter (\<lambda>(name, cb). \<not> is_print_log cb) (map named items) @
     print_logs @ filter (\<lambda>(name, cb). is_print_log cb) (map named items)"
  by (induction items arbitrary: print_logs) (auto split: prod.splits)

lemma named_resolved: "named item = resolved item"
proof (cases item)
  case (Named name cb)
  then show ?thesis by (simp add: resolved_def)
next
  case (Unnamed cb)
  then show ?thesis by (cases cb) (simp_all add: resolved_def)
qed

lemma is_print_log_moved_last: "is_print_log cb = moved_last cb"
  by (cases cb) (auto simp: moved_last_def printer_type_def)

lemma yield_callbacks_effective:
  "yield_callbacks defaults user = map resolved (effective (defaults @ or_empty user))"
proof -
  have named: "named = resolved" by (rule ext) (rule named_resolved)
  have P: "(\<lambda>(name, cb). is_print_log cb) \<circ> resolved = (\<lambda>item. moved_last (callback_of item))"
    by (rule ext) (simp add: resolved_def is_print_log_moved_last)
  have N: "(\<lambda>(name, cb). \<not> is_print_log cb) \<circ> resolved
           = (\<lambda>item. \<not> moved_last (callback_of item))"
    by (rule ext) (simp add: resolved_def is_print_log_moved_last)
  show ?thesis
    by (simp add: yield_callbacks_def yield_from_partition named filter_map P N effective_def)
qed

lemma mset_effective: "mset (effective items) = mset items"
  by (induction items) (simp_all add: effective_def)

lemma set_effective: "set (effective items) = set items"
  by (auto simp: effective_def)

lemma length_effective: "length (effective items) = length items"
  using mset_effective[of items] by (metis size_mset)



text \<open>
  The claim as stated fails for a class derived from \<open>PrintLog\<close> that is given as a
  class: it is a printer-type entry, and it stays before the scorer that follows it.
\<close>

theorem print_logs_last_counterexample:
  "printer_type (Uninitialized MyPrintLog) \<and> \<not> printer_type (Uninitialized Scoring) \<and>
   yield_callbacks NeuralNet_default_callbacks (Some subclass_callbacks) =
     [(''epoch_timer'', Uninitialized (Class ''EpochTimer'' False)),
      (''train_loss'', Instance Scoring [] False),
      (''valid_loss'', Instance Scoring [] False),
      (''MyPrintLog'', Uninitialized MyPrintLog),
      (''Scoring'', Uninitialized Scoring),
      (''print_log'', Uninitialized PrintLog)]"
  by (simp add: printer_type_def MyPrintLog_def Scoring_def yield_callbacks_def or_empty_def
        NeuralNet_default_callbacks_def subclass_callbacks_def)

lemma first_duplicate_None:
  "first_duplicate names seen = None \<longleftrightarrow> distinct names \<and> set names \<inter> set seen = {}"
  by (induction names arbitrary: seen) auto

lemma first_duplicate_Some:
  "first_duplicate names seen = Some d \<Longrightarrow>
   d \<in> set names \<and> (d \<in> set seen \<or> 2 \<le> count_list names d)"
proof (induction names arbitrary: seen)
  case (Cons name names)
  show ?case
  proof (cases "name \<in> set seen")
    case True
    with Cons.prems show ?thesis by simp
  next
    case False
    with Cons.prems have "first_duplicate names (name # seen) = Some d" by simp
    from Cons.IH[OF this] have d: "d \<in> set names" and "d = name \<or> d \<in> set seen \<or> 2 \<le> count_list names d"
      by auto
    moreover have "1 \<le> count_list names d"
      using d count_list_0_iff[of names d] by (cases "count_list names d") simp_all
    ultimately show ?thesis by auto
  qed
qed simp

lemma initialize_each_eq:
  "initialize_each n ys seen acc =
     (case first_duplicate (map fst ys) seen of
        Some d \<Rightarrow> Inl (ValueError (duplicate_message d))
      | None \<Rightarrow> Inr (acc @ map (initialized_entry n) ys))"
  by (induction n ys seen acc rule: initialize_each.induct)
     (auto simp: initialized_entry_def Let_def split: option.splits)

lemma fst_initialized_entry: "map fst (map (initialized_entry n) ys) = map fst ys"
  by (induction ys) (auto simp: initialized_entry_def)

lemma initialized_entry_instance:
  "list_all (\<lambda>(name, cb). initialized_instance cb) (map (initialized_entry n) ys)"
proof (induction ys)
  case (Cons y ys)
  obtain name cb where y: "y = (name, cb)" by (cases y)
  have "initialized_instance (initialize_callback (routed cb p))" for p
    by (cases cb) simp_all
  with Cons y show ?case by (simp add: initialized_entry_def)
qed simp

lemma class_of_initialized: "class_of (initialize_callback (routed cb params)) = class_of cb"
  by (cases cb) simp_all

lemma names_of_yield_callbacks:
  "map fst (yield_callbacks defaults user) = map resolved_name (effective (defaults @ or_empty user))"
  by (simp add: yield_callbacks_effective resolved_def comp_def)

lemma mset_names_effective:
  "mset (map resolved_name (effective items)) = mset (map resolved_name items)"
  using mset_effective[of items] by (metis mset_map)

lemma distinct_names_effective:
  "distinct (map resolved_name (effective items)) = distinct (map resolved_name items)"
  by (rule mset_eq_imp_distinct_iff) (rule mset_names_effective)

lemma count_names_effective:
  "count_list (map resolved_name (effective items)) d = count_list (map resolved_name items) d"
  using mset_names_effective[of items] by (metis count_mset)

lemma classes_of_initialized_entries:
  "map (\<lambda>(name, cb). (name, class_of cb)) (map (initialized_entry n) (yield_callbacks defaults user)) =
     map (\<lambda>item. (resolved_name item, class_of (callback_of item)))
       (effective (defaults @ or_empty user))"
  by (simp add: yield_callbacks_effective initialized_entry_def resolved_def comp_def
        class_of_initialized)

lemma length_initialized_entries:
  "length (map (initialized_entry n) (yield_callbacks defaults user)) = length (defaults @ or_empty user)"
  by (simp add: yield_callbacks_effective length_effective del: length_append)

text \<open>
  Claim C7. Let the \<open>callbacks\<close> attribute be \<open>None\<close> or a list of entries, and take
  the default callbacks followed by the user callbacks, each with the name it resolves to:
  its explicit name, or the name of the class of a callback given alone. If two entries
  resolve to the same name, \<open>initialize_callbacks\<close> raises the \<open>ValueError\<close> with the
  message \<open>The callback name 'd' appears more than once.\<close>, where \<open>d\<close> is a name that
  at least two entries resolve to. If the names are distinct it succeeds, and
  \<open>callbacks_\<close> holds one pair per entry, in the effective order: the name the entry
  resolves to with an initialized instance of the class the entry gives, carrying the
  parameters routed to that name.
\<close>

theorem duplicate_callback_names:
  assumes "map_of (attrs n) ''callbacks'' = Some (Entries callbacks)"
  shows "if distinct (map resolved_name (default_callbacks n @ or_empty callbacks))
         then \<exists>n'. initialize_callbacks n = Inr n' \<and>
                map (\<lambda>(name, cb). (name, class_of cb)) (callbacks_attr n') =
                  map (\<lambda>item. (resolved_name item, class_of (callback_of item)))
                    (effective (default_callbacks n @ or_empty callbacks)) \<and>
                list_all (\<lambda>(name, cb). initialized_instance cb) (callbacks_attr n') \<and>
                length (callbacks_attr n') = length (default_callbacks n @ or_empty callbacks) \<and>
                callbacks_attr n' =
                  map (initialized_entry n) (yield_callbacks (default_callbacks n) callbacks)
         else \<exists>d. initialize_callbacks n =
                  Inl (ValueError (''The callback name '' @ [CHR 0x27] @ d @ [CHR 0x27] @
                                   '' appears more than once.'')) \<and>
                2 \<le> count_list (map resolved_name (default_callbacks n @ or_empty callbacks)) d"
proof -
  let ?all = "default_callbacks n @ or_empty callbacks"
  let ?ys = "yield_callbacks (default_callbacks n) callbacks"
  have items: "all_callbacks n = Inr ?all"
    using assms by (simp add: all_callbacks_def)
  have names: "map fst ?ys = map resolved_name (effective ?all)"
    by (rule names_of_yield_callbacks)
  show ?thesis
  proof (cases "distinct (map resolved_name ?all)")
    case True
    then have "distinct (map fst ?ys)"
      by (simp add: names distinct_names_effective)
    then have "first_duplicate (map fst ?ys) [] = None"
      by (simp add: first_duplicate_None)
    then have run: "initialize_callbacks n =
        Inr (n\<lparr>callbacks_attr := map (initialized_entry n) ?ys, built := built n @ [Callbacks]\<rparr>)"
      by (simp add: initialize_callbacks_def items initialize_each_eq yield_callbacks_def)
    let ?n' = "n\<lparr>callbacks_attr := map (initialized_entry n) ?ys, built := built n @ [Callbacks]\<rparr>"
    have cbs: "callbacks_attr ?n' = map (initialized_entry n) ?ys" by simp
    have classes: "map (\<lambda>(name, cb). (name, class_of cb)) (map (initialized_entry n) ?ys) =
        map (\<lambda>item. (resolved_name item, class_of (callback_of item))) (effective ?all)"
      by (rule classes_of_initialized_entries)
    have len: "length (map (initialized_entry n) ?ys) = length ?all"
      by (rule length_initialized_entries)
    have "initialize_callbacks n = Inr ?n' \<and>
        map (\<lambda>(name, cb). (name, class_of cb)) (callbacks_attr ?n') =
          map (\<lambda>item. (resolved_name item, class_of (callback_of item))) (effective ?all) \<and>
        list_all (\<lambda>(name, cb). initialized_instance cb) (callbacks_attr ?n') \<and>
        length (callbacks_attr ?n') = length ?all \<and>
        callbacks_attr ?n' = map (initialized_entry n) ?ys"
    proof (intro conjI)
      show "initialize_callbacks n = Inr ?n'" by (rule run)
      show "map (\<lambda>(name, cb). (name, class_of cb)) (callbacks_attr ?n') =
          map (\<lambda>item. (resolved_name item, class_of (callback_of item))) (effective ?all)"
        using classes by (simp only: cbs)
      show "list_all (\<lambda>(name, cb). initialized_instance cb) (callbacks_attr ?n')"
        using initialized_entry_instance[of n ?ys] by (simp only: cbs)
      show "length (callbacks_attr ?n') = length ?all"
        using len by (simp only: cbs)
      show "callbacks_attr ?n' = map (initialized_entry n) ?ys" by (rule cbs)
    qed
    then have "\<exists>n'. initialize_callbacks n = Inr n' \<and>
        map (\<lambda>(name, cb). (name, class_of cb)) (callbacks_attr n') =
          map (\<lambda>item. (resolved_name item, class_of (callback_of item))) (effective ?all) \<and>
        list_all (\<lambda>(name, cb). initialized_instance cb) (callbacks_attr n') \<and>
        length (callbacks_attr n') = length ?all \<and>
        callbacks_attr n' = map (initialized_entry n) ?ys"
      by (rule exI[where x = ?n'])
    with True show ?thesis by (simp only: if_True)
  next
    case False
    then have "\<not> distinct (map fst ?ys)"
      by (simp add: names distinct_names_effective)
    then obtain d where d: "first_duplicate (map fst ?ys) [] = Some d"
      by (cases "first_duplicate (map fst ?ys) []") (auto simp: first_duplicate_None)
    then have run: "initialize_callbacks n = Inl (ValueError (duplicate_message d))"
      by (simp add: initialize_callbacks_def items initialize_each_eq yield_callbacks_def)
    from first_duplicate_Some[OF d] have "2 \<le> count_list (map fst ?ys) d" by simp
    then have "2 \<le> count_list (map resolved_name ?all) d"
      by (simp add: names count_names_effective)
    moreover from run have "initialize_callbacks n =
                  Inl (ValueError (''The callback name '' @ [CHR 0x27] @ d @ [CHR 0x27] @
                                   '' appears more than once.''))"
      by (simp only: duplicate_message_def)
    ultimately have "\<exists>d. initialize_callbacks n =
                  Inl (ValueError (''The callback name '' @ [CHR 0x27] @ d @ [CHR 0x27] @
                                   '' appears more than once.'')) \<and>
                2 \<le> count_list (map resolved_name ?all) d"
      by (intro exI[of _ d] conjI)
    with False show ?thesis by (simp only: if_False)
  qed
qed

theorem duplicate_callback_names_witness:
  "map_of (attrs example_net) ''callbacks'' =
     Some (Entries (Some [Unnamed (Instance PrintLog [] False),
                          Named ''train_loss'' (Uninitialized Scoring)])) \<and>
   initialize_callbacks example_net =
     Inl (ValueError (''The callback name '' @ [CHR 0x27] @ ''train_loss'' @ [CHR 0x27] @
                      '' appears more than once.'')) \<and>
   2 \<le> count_list (map resolved_name (default_callbacks example_net @
          [Unnamed (Instance PrintLog [] False), Named ''train_loss'' (Uninitialized Scoring)]))
        ''train_loss'' \<and>
   map_of (attrs inferred_net) ''callbacks'' =
     Some (Entries (Some [Unnamed (Uninitialized Scoring), Unnamed (Instance Scoring [] False)])) \<and>
   initialize_callbacks inferred_net =
     Inl (ValueError (''The callback name '' @ [CHR 0x27] @ ''Scoring'' @ [CHR 0x27] @
                      '' appears more than once.'')) \<and>
   2 \<le> count_list (map resolved_name (default_callbacks inferred_net @
          [Unnamed (Uninitialized Scoring), Unnamed (Instance Scoring [] False)])) ''Scoring'' \<and>
   map_of (attrs distinct_net) ''callbacks'' = Some (Entries (Some example_callbacks)) \<and>
   (\<exists>n'. initialize_callbacks distinct_net = Inr n' \<and>
      callbacks_attr n' =
        [(''epoch_timer'', Instance (Class ''EpochTimer'' False) [(''x'', Val (Num 1))] True),
         (''train_loss'', Instance Scoring [] True),
         (''valid_loss'', Instance Scoring [] True),
         (''Scoring'', Instance Scoring [] True),
         (''print_log'', Instance PrintLog [] True),
         (''PrintLog'', Instance PrintLog [] True),
         (''mine'', Instance MyPrintLog [] True)])"
proof -
  let ?explicit = "[Unnamed (Instance PrintLog [] False), Named ''train_loss'' (Uninitialized Scoring)]"
  let ?inferred = "[Unnamed (Uninitialized Scoring), Unnamed (Instance Scoring [] False)]"
  have a1: "map_of (attrs example_net) ''callbacks'' = Some (Entries (Some ?explicit))"
    by (simp add: example_net_def)
  have a2: "map_of (attrs inferred_net) ''callbacks'' = Some (Entries (Some ?inferred))"
    by (simp add: inferred_net_def)
  have a3: "map_of (attrs distinct_net) ''callbacks'' = Some (Entries (Some example_callbacks))"
    by (simp add: distinct_net_def)
  have d1: "\<not> distinct (map resolved_name (default_callbacks example_net @ or_empty (Some ?explicit)))"
    by (simp add: example_net_def NeuralNet_default_callbacks_def or_empty_def)
  have d2: "\<not> distinct (map resolved_name (default_callbacks inferred_net @ or_empty (Some ?inferred)))"
    by (simp add: inferred_net_def NeuralNet_default_callbacks_def or_empty_def Scoring_def)
  have d3: "distinct (map resolved_name (default_callbacks distinct_net @ or_empty (Some example_callbacks)))"
    by (simp add: distinct_net_def NeuralNet_default_callbacks_def or_empty_def Scoring_def
          example_callbacks_def)
  have r1: "initialize_callbacks example_net =
     Inl (ValueError (''The callback name '' @ [CHR 0x27] @ ''train_loss'' @ [CHR 0x27] @
                      '' appears more than once.''))"
    by code_simp
  have r2: "initialize_callbacks inferred_net =
     Inl (ValueError (''The callback name '' @ [CHR 0x27] @ ''Scoring'' @ [CHR 0x27] @
                      '' appears more than once.''))"
    by code_simp
  from duplicate_callback_names[OF a1] d1 obtain d where
    e1: "initialize_callbacks example_net =
           Inl (ValueError (''The callback name '' @ [CHR 0x27] @ d @ [CHR 0x27] @
                            '' appears more than once.''))"
    and c1: "2 \<le> count_list (map resolved_name (default_callbacks example_net @ or_empty (Some ?explicit))) d"
    by (simp only: if_False) blast
  from e1 r1 have "d = ''train_loss''" by simp
  with c1 have k1: "2 \<le> count_list (map resolved_name (default_callbacks example_net @ ?explicit))
        ''train_loss''"
    by (simp add: or_empty_def)
  from duplicate_callback_names[OF a2] d2 obtain d' where
    e2: "initialize_callbacks inferred_net =
           Inl (ValueError (''The callback name '' @ [CHR 0x27] @ d' @ [CHR 0x27] @
                            '' appears more than once.''))"
    and c2: "2 \<le> count_list (map resolved_name (default_callbacks inferred_net @ or_empty (Some ?inferred))) d'"
    by (simp only: if_False) blast
  from e2 r2 have "d' = ''Scoring''" by simp
  with c2 have k2: "2 \<le> count_list (map resolved_name (default_callbacks inferred_net @ ?inferred))
        ''Scoring''"
    by (simp add: or_empty_def)
  from duplicate_callback_names[OF a3] d3 obtain n' where
    run: "initialize_callbacks distinct_net = Inr n'"
    and cbs: "callbacks_attr n' =
        map (initialized_entry distinct_net)
          (yield_callbacks (default_callbacks distinct_net) (Some example_callbacks))"
    by (simp only: if_True) blast
  have ev: "map (initialized_entry distinct_net)
          (yield_callbacks (default_callbacks distinct_net) (Some example_callbacks)) =
        [(''epoch_timer'', Instance (Class ''EpochTimer'' False) [(''x'', Val (Num 1))] True),
         (''train_loss'', Instance Scoring [] True),
         (''valid_loss'', Instance Scoring [] True),
         (''Scoring'', Instance Scoring [] True),
         (''print_log'', Instance PrintLog [] True),
         (''PrintLog'', Instance PrintLog [] True),
         (''mine'', Instance MyPrintLog [] True)]"
    by code_simp
  from run cbs have r3: "\<exists>n'. initialize_callbacks distinct_net = Inr n' \<and>
      callbacks_attr n' =
        [(''epoch_timer'', Instance (Class ''EpochTimer'' False) [(''x'', Val (Num 1))] True),
         (''train_loss'', Instance Scoring [] True),
         (''valid_loss'', Instance Scoring [] True),
         (''Scoring'', Instance Scoring [] True),
         (''print_log'', Instance PrintLog [] True),
         (''PrintLog'', Instance PrintLog [] True),
         (''mine'', Instance MyPrintLog [] True)]"
    unfolding ev by blast
  from a1 r1 k1 a2 r2 k2 a3 r3 show ?thesis by (intro conjI)
qed

section \<open>Claims about construction and parameters\<close>

lemma check_keys_eq:
  "check_keys hasattr keys =
     (if list_all (\<lambda>key. \<not> hasattr key \<and> (endswith key ''_'' \<or> key_has_prefix key)) keys
      then None else Some AssertionError)"
  by (induction keys) auto

lemma map_of_dict_update:
  "distinct (map fst kwargs) \<Longrightarrow>
   map_of (dict_update d kwargs) key =
     (case map_of kwargs key of Some v \<Rightarrow> Some v | None \<Rightarrow> map_of d key)"
proof (induction kwargs arbitrary: d)
  case (Cons kv kwargs)
  obtain k v where kv: "kv = (k, v)" by (cases kv)
  have step: "dict_update d ((k, v) # kwargs) = dict_update (AList.update k v d) kwargs"
    by (simp add: dict_update_def)
  from Cons.prems kv have none: "map_of kwargs k = None" and dist: "distinct (map fst kwargs)"
    by (simp_all add: map_of_eq_None_iff)
  have "map_of (dict_update (AList.update k v d) kwargs) key =
      (case map_of kwargs key of Some v \<Rightarrow> Some v | None \<Rightarrow> map_of (AList.update k v d) key)"
    by (rule Cons.IH[OF dist])
  with none show ?case
    unfolding kv step by (cases "key = k") (simp_all add: update_conv' split: option.splits)
qed (simp add: dict_update_def)

text \<open>
  Claim C8, as the code has it. The keys \<open>history\<close> and \<open>initialized_\<close> are taken out
  of the extra keyword arguments before they are checked. Construction succeeds exactly
  when every other key is not an attribute of the object already (a declared field, or a
  name the class defines) and ends with an underscore or starts with one of the six
  prefixes; it then stores every extra keyword argument, the two reserved ones included.
  Otherwise it fails with an \<open>AssertionError\<close>.
\<close>

theorem extra_keyword_arguments:
  assumes "distinct (map fst kwargs)" and "length values = length declared_fields"
  shows "if list_all (\<lambda>key. key = ''history'' \<or> key = ''initialized_'' \<or>
                  (\<not> (key \<in> set declared_fields \<or> class_attr key) \<and>
                   (endswith key ''_'' \<or> key_has_prefix key))) (map fst kwargs)
         then \<exists>self. NeuralNet_init class_attr values kwargs = Inr self \<and>
                list_all (\<lambda>(key, v). map_of self key = Some v) kwargs
         else NeuralNet_init class_attr values kwargs = Inl AssertionError"
proof -
  let ?rest = "AList.delete ''initialized_'' (AList.delete ''history'' kwargs)"
  let ?self = "zip declared_fields values"
  let ?hasattr = "\<lambda>key. map_of ?self key \<noteq> None \<or> class_attr key"
  let ?ok = "\<lambda>key. \<not> ?hasattr key \<and> (endswith key ''_'' \<or> key_has_prefix key)"
  have dom: "map_of ?self key = None \<longleftrightarrow> key \<notin> set declared_fields" for key
  proof -
    have "map fst ?self = declared_fields"
      using assms(2) by (intro map_fst_zip) simp
    then have "fst ` set ?self = set declared_fields"
      by (metis set_map)
    then show ?thesis by (simp add: map_of_eq_None_iff)
  qed
  have keys: "map fst ?rest = removeAll ''initialized_'' (removeAll ''history'' (map fst kwargs))"
    by (simp add: delete_keys)
  have all: "list_all ?ok (map fst ?rest) \<longleftrightarrow>
        list_all (\<lambda>key. key = ''history'' \<or> key = ''initialized_'' \<or>
                  (\<not> (key \<in> set declared_fields \<or> class_attr key) \<and>
                   (endswith key ''_'' \<or> key_has_prefix key))) (map fst kwargs)"
    unfolding keys by (auto simp: list_all_iff dom)
  have init: "NeuralNet_init class_attr values kwargs =
      (case check_keys ?hasattr (map fst ?rest) of
         Some e \<Rightarrow> Inl e
       | None \<Rightarrow>
           Inr (AList.update ''initialized_''
                  (case map_of (AList.delete ''history'' kwargs) ''initialized_'' of
                     None \<Rightarrow> Val (VBool False) | Some v \<Rightarrow> v)
                  (AList.update ''history''
                     (case map_of kwargs ''history'' of None \<Rightarrow> Val VNone | Some v \<Rightarrow> v)
                     (dict_update ?self ?rest))))"
    by (simp add: NeuralNet_init_def pop_def Let_def)
  show ?thesis
  proof (cases "list_all ?ok (map fst ?rest)")
    case False
    then show ?thesis
      unfolding all[symmetric] by (simp add: init check_keys_eq all)
  next
    case True
    let ?d = "AList.update ''initialized_''
                  (case map_of (AList.delete ''history'' kwargs) ''initialized_'' of
                     None \<Rightarrow> Val (VBool False) | Some v \<Rightarrow> v)
                  (AList.update ''history''
                     (case map_of kwargs ''history'' of None \<Rightarrow> Val VNone | Some v \<Rightarrow> v)
                     (dict_update ?self ?rest))"
    have run: "NeuralNet_init class_attr values kwargs = Inr ?d"
      using True by (simp add: init check_keys_eq)
    have dist: "distinct (map fst ?rest)"
      using assms(1) by (intro distinct_delete)
    have stored: "map_of ?d key = Some v" if "(key, v) \<in> set kwargs" for key v
    proof -
      from that assms(1) have kv: "map_of kwargs key = Some v" by simp
      then show ?thesis
        by (cases "key = ''history''"; cases "key = ''initialized_''")
           (simp_all add: update_conv' map_of_dict_update[OF dist] delete_conv')
    qed
    then have "list_all (\<lambda>(key, v). map_of ?d key = Some v) kwargs"
      by (auto simp: list_all_iff)
    with run have "\<exists>self. NeuralNet_init class_attr values kwargs = Inr self \<and>
                list_all (\<lambda>(key, v). map_of self key = Some v) kwargs"
      by blast
    with True show ?thesis unfolding all by simp
  qed
qed

theorem extra_keyword_arguments_witness:
  "distinct (map fst [(''module__units'', Val (Num 5)), (''foo_'', Val (Num 1))]) \<and>
   length example_values = length declared_fields \<and>
   (\<exists>self. NeuralNet_init NeuralNet_class_attr example_values
              [(''module__units'', Val (Num 5)), (''foo_'', Val (Num 1))] = Inr self \<and>
      list_all (\<lambda>(key, v). map_of self key = Some v)
        [(''module__units'', Val (Num 5)), (''foo_'', Val (Num 1))]) \<and>
   NeuralNet_init NeuralNet_class_attr example_values
     [(''module__units'', Val (Num 5)), (''foo'', Val (Num 1))] = Inl AssertionError"
proof -
  have d1: "distinct (map fst [(''module__units'', Val (Num 5)), (''foo_'', Val (Num 1))])"
    by simp
  have d2: "distinct (map fst [(''module__units'', Val (Num 5)), (''foo'', Val (Num 1))])"
    by simp
  have len: "length example_values = length declared_fields"
    by (simp add: example_values_def declared_fields_def)
  have ok: "list_all (\<lambda>key. key = ''history'' \<or> key = ''initialized_'' \<or>
                  (\<not> (key \<in> set declared_fields \<or> NeuralNet_class_attr key) \<and>
                   (endswith key ''_'' \<or> key_has_prefix key)))
              (map fst [(''module__units'', Val (Num 5)), (''foo_'', Val (Num 1))])"
    by (simp add: declared_fields_def NeuralNet_class_attr_def NeuralNet_attributes_def inherited_attributes_def
          endswith_def key_has_prefix_def prefixes_def startswith_def)
  have bad: "\<not> list_all (\<lambda>key. key = ''history'' \<or> key = ''initialized_'' \<or>
                  (\<not> (key \<in> set declared_fields \<or> NeuralNet_class_attr key) \<and>
                   (endswith key ''_'' \<or> key_has_prefix key)))
              (map fst [(''module__units'', Val (Num 5)), (''foo'', Val (Num 1))])"
    by (simp add: declared_fields_def NeuralNet_class_attr_def NeuralNet_attributes_def inherited_attributes_def
          endswith_def key_has_prefix_def prefixes_def startswith_def)
  from extra_keyword_arguments[OF d1 len, of NeuralNet_class_attr]
    extra_keyword_arguments[OF d2 len, of NeuralNet_class_attr] ok bad d1 len
  show ?thesis by (simp only: if_True if_False simp_thms)
qed

text \<open>
  The claim as stated fails on \<open>history\<close>: it is no declared field, has no trailing
  underscore and none of the prefixes, and construction accepts and stores it. It fails
  on \<open>prefixes_\<close> too: the key has the trailing underscore, but the class has an
  attribute of that name, and construction fails.
\<close>

theorem extra_keyword_arguments_counterexample:
  "''history'' \<notin> set declared_fields \<and> \<not> endswith ''history'' ''_'' \<and>
   \<not> key_has_prefix ''history'' \<and>
   NeuralNet_init NeuralNet_class_attr example_values [(''history'', Val (VList []))] =
     Inr (zip declared_fields example_values @
          [(''history'', Val (VList [])), (''initialized_'', Val (VBool False))]) \<and>
   ''prefixes_'' \<notin> set declared_fields \<and> endswith ''prefixes_'' ''_'' \<and>
   NeuralNet_init NeuralNet_class_attr example_values [(''prefixes_'', Val (VList []))] =
     Inl AssertionError"
  by (simp add: declared_fields_def endswith_def key_has_prefix_def prefixes_def startswith_def
        NeuralNet_init_def pop_def example_values_def dict_update_def
        NeuralNet_class_attr_def NeuralNet_attributes_def inherited_attributes_def)

lemma and_then_Inr:
  "and_then r f = Inr v \<longleftrightarrow> (\<exists>u. r = Inr u \<and> f u = Inr v)"
  by (cases r) (auto simp: and_then_def)

lemma initialize_criterion_built:
  "initialize_criterion x n = Inr n' \<Longrightarrow> built n' = built n @ [Criterion] \<and> attrs n' = attrs n"
  by (auto simp: initialize_criterion_def Let_def split: option.splits)

lemma initialize_module_built:
  "initialize_module x n = Inr n' \<Longrightarrow> built n' = built n @ [Module] \<and> attrs n' = attrs n"
  by (auto simp: initialize_module_def Let_def split: option.splits)

lemma initialize_optimizer_built:
  "initialize_optimizer x n = Inr n' \<Longrightarrow> built n' = built n @ [Optimizer] \<and> attrs n' = attrs n"
  by (auto simp: initialize_optimizer_def Let_def split: option.splits sum.splits if_splits)

lemma initialize_callbacks_built:
  "initialize_callbacks n = Inr n' \<Longrightarrow> built n' = built n @ [Callbacks] \<and> attrs n' = attrs n"
  by (auto simp: initialize_callbacks_def split: sum.splits)

lemma startswith_shorter:
  "startswith key (p @ q) \<Longrightarrow> startswith key p"
proof -
  assume "startswith key (p @ q)"
  then have "take (length p) (take (length (p @ q)) key) = take (length p) (p @ q)"
    by (simp only: startswith_def)
  then show ?thesis by (simp add: startswith_def min_def)
qed

lemma rebuilding_key_has_prefix:
  assumes "startswith key p" and "p \<in> {''criterion'', ''callbacks'', ''module'', ''optimizer''}"
  shows "key_has_prefix key"
proof -
  have "startswith key ''optim''" if "startswith key ''optimizer''"
    using startswith_shorter[of key "''optim''" "''izer''"] that by simp
  with assms show ?thesis
    by (auto simp: key_has_prefix_def prefixes_def)
qed

lemma any_special_key:
  assumes "p \<in> {''criterion'', ''callbacks'', ''module'', ''optimizer''}"
  shows "any_key_startswith (filter (\<lambda>(key, v). key_has_prefix key) kwargs) p
         = any_key_startswith kwargs p"
  using rebuilding_key_has_prefix[OF _ assms]
  by (auto simp: any_key_startswith_def list_ex_iff)

lemma set_special_ok:
  "list_all (\<lambda>(key, v). \<not> endswith key ''_'') params \<Longrightarrow>
   \<exists>d'. set_special d params = Inr d' \<and> (\<forall>k. map_of d k \<noteq> None \<longrightarrow> map_of d' k \<noteq> None)"
  by (induction d params rule: set_special.induct) (auto simp: update_conv')

text \<open>
  Claim C5. When \<open>set_params\<close> returns, the components it has rebuilt are, in this
  order: the criterion if some incoming key starts with \<open>criterion\<close>; the callbacks if
  some key starts with \<open>callbacks\<close>; the module and then the optimizer if some key
  starts with \<open>module\<close>; the optimizer if some key starts with \<open>optimizer\<close> (a key
  that starts with \<open>optim\<close> only rebuilds nothing); and nothing else. In particular a
  call whose keys all start with \<open>module\<close> rebuilds the module once and the optimizer
  once, and neither the criterion nor the callbacks; and such a call does return when no
  key ends with an underscore, the base setter accepts the empty set of plain parameters,
  the constructors do not raise, and the estimator has a module and a learning rate.
\<close>

theorem set_params_rebuilds:
  "(set_params x n kwargs = Inr n' \<longrightarrow>
      built n' = built n @
        (if any_key_startswith kwargs ''criterion'' then [Criterion] else []) @
        (if any_key_startswith kwargs ''callbacks'' then [Callbacks] else []) @
        (if any_key_startswith kwargs ''module'' then [Module, Optimizer] else []) @
        (if any_key_startswith kwargs ''optimizer'' then [Optimizer] else [])) \<and>
   (kwargs \<noteq> [] \<and> list_all (\<lambda>(key, v). startswith key ''module'' \<and> \<not> endswith key ''_'') kwargs \<and>
    base_set_params x (attrs n) [] = Inr (attrs n) \<and>
    (\<forall>params. construct x Module params = None \<and> construct x Optimizer params = None) \<and>
    Module \<in> set (built n) \<and> map_of (attrs n) ''lr'' \<noteq> None \<longrightarrow>
      (\<exists>m. set_params x n kwargs = Inr m \<and> built m = built n @ [Module, Optimizer]))"
proof -
  let ?special = "filter (\<lambda>(key, v). key_has_prefix key) kwargs"
  let ?expected = "\<lambda>n. built n @
        (if any_key_startswith kwargs ''criterion'' then [Criterion] else []) @
        (if any_key_startswith kwargs ''callbacks'' then [Callbacks] else []) @
        (if any_key_startswith kwargs ''module'' then [Module, Optimizer] else []) @
        (if any_key_startswith kwargs ''optimizer'' then [Optimizer] else [])"
  have special:
    "any_key_startswith ?special ''criterion'' = any_key_startswith kwargs ''criterion''"
    "any_key_startswith ?special ''callbacks'' = any_key_startswith kwargs ''callbacks''"
    "any_key_startswith ?special ''module'' = any_key_startswith kwargs ''module''"
    "any_key_startswith ?special ''optimizer'' = any_key_startswith kwargs ''optimizer''"
    by (simp_all add: any_special_key)
  have A: "built n' = ?expected n" if run: "set_params x n kwargs = Inr n'" for n'
  proof -
    from run obtain d n1 n2 n3 where
      s1: "(if any_key_startswith kwargs ''criterion''
            then initialize_criterion x (n\<lparr>attrs := d\<rparr>) else Inr (n\<lparr>attrs := d\<rparr>)) = Inr n1"
      and s2: "(if any_key_startswith kwargs ''callbacks''
            then initialize_callbacks n1 else Inr n1) = Inr n2"
      and s3: "(if any_key_startswith kwargs ''module''
            then and_then (initialize_module x n2) (initialize_optimizer x) else Inr n2) = Inr n3"
      and s4: "(if any_key_startswith kwargs ''optimizer''
            then initialize_optimizer x n3 else Inr n3) = Inr n'"
      unfolding set_params_def Let_def and_then_Inr special by blast
    from s1 have b1: "built n1 = built n @ (if any_key_startswith kwargs ''criterion'' then [Criterion] else [])"
      by (auto split: if_splits dest: initialize_criterion_built)
    from s2 have b2: "built n2 = built n1 @ (if any_key_startswith kwargs ''callbacks'' then [Callbacks] else [])"
      by (auto split: if_splits dest: initialize_callbacks_built)
    from s3 have b3: "built n3 = built n2 @ (if any_key_startswith kwargs ''module'' then [Module, Optimizer] else [])"
      by (auto simp: and_then_Inr split: if_splits
               dest!: initialize_module_built initialize_optimizer_built)
    from s4 have b4: "built n' = built n3 @ (if any_key_startswith kwargs ''optimizer'' then [Optimizer] else [])"
      by (auto split: if_splits dest: initialize_optimizer_built)
    show ?thesis by (simp only: b1 b2 b3 b4 append_assoc)
  qed
  have B: "\<exists>m. set_params x n kwargs = Inr m \<and> built m = built n @ [Module, Optimizer]"
    if ne: "kwargs \<noteq> []"
      and keys: "list_all (\<lambda>(key, v). startswith key ''module'' \<and> \<not> endswith key ''_'') kwargs"
      and base: "base_set_params x (attrs n) [] = Inr (attrs n)"
      and ok: "\<forall>params. construct x Module params = None \<and> construct x Optimizer params = None"
      and m: "Module \<in> set (built n)" and lr: "map_of (attrs n) ''lr'' \<noteq> None"
  proof -
    have pre: "key_has_prefix key" if "(key, v) \<in> set kwargs" for key v
      using that keys rebuilding_key_has_prefix[of key "''module''"] by (auto simp: list_all_iff)
    then have special_all: "?special = kwargs" and normal_none: "filter (\<lambda>(key, v). \<not> key_has_prefix key) kwargs = []"
      by (auto simp: filter_empty_conv intro!: filter_True)
    have noc: "\<not> startswith key ''criterion''" "\<not> startswith key ''callbacks''" "\<not> startswith key ''optimizer''"
      if "startswith key ''module''" for key
      using that by (cases key; auto simp: startswith_def)+
    have flags: "\<not> any_key_startswith kwargs ''criterion''" "\<not> any_key_startswith kwargs ''callbacks''"
      "\<not> any_key_startswith kwargs ''optimizer''" "any_key_startswith kwargs ''module''"
      using keys ne noc by (cases kwargs; auto simp: any_key_startswith_def list_all_iff list_ex_iff)+
    from keys have "list_all (\<lambda>(key, v). \<not> endswith key ''_'') kwargs"
      by (auto simp: list_all_iff)
    from set_special_ok[OF this, of "attrs n"] obtain d where
      d: "set_special (attrs n) kwargs = Inr d" and keep: "\<And>k. map_of (attrs n) k \<noteq> None \<Longrightarrow> map_of d k \<noteq> None"
      by blast
    let ?n1 = "n\<lparr>attrs := d\<rparr>"
    let ?n2 = "?n1\<lparr>built := built n @ [Module]\<rparr>"
    have mod: "initialize_module x ?n1 = Inr ?n2"
      using ok by (simp add: initialize_module_def)
    from keep[OF lr] obtain l where l: "map_of d ''lr'' = Some l" by auto
    have "\<exists>n3. initialize_optimizer x ?n2 = Inr n3"
      using ok l by (simp add: initialize_optimizer_def Let_def)
    then obtain n3 where opt: "initialize_optimizer x ?n2 = Inr n3" by blast
    have run: "set_params x n kwargs = Inr n3"
      unfolding set_params_def Let_def special_all normal_none
      using flags by (simp add: base d mod opt and_then_def)
    from A[OF run] flags have "built n3 = built n @ [Module, Optimizer]"
      by simp
    with run show ?thesis by blast
  qed
  from A B show ?thesis by blast
qed

theorem set_params_rebuilds_witness:
  "[(''module__units'', Val (Num 20))] \<noteq> [] \<and>
   list_all (\<lambda>(key, v). startswith key ''module'' \<and> \<not> endswith key ''_'')
     [(''module__units'', Val (Num 20))] \<and>
   base_set_params example_externals (attrs example_initialized) [] = Inr (attrs example_initialized) \<and>
   (\<forall>params. construct example_externals Module params = None \<and>
             construct example_externals Optimizer params = None) \<and>
   Module \<in> set (built example_initialized) \<and>
   map_of (attrs example_initialized) ''lr'' \<noteq> None \<and>
   (\<exists>m. set_params example_externals example_initialized [(''module__units'', Val (Num 20))] = Inr m \<and>
        built m = [Callbacks, Criterion, Module, Optimizer, History, Module, Optimizer])"
proof -
  let ?kw = "[(''module__units'', Val (Num 20))]"
  have 1: "?kw \<noteq> []" by simp
  have 2: "list_all (\<lambda>(key, v). startswith key ''module'' \<and> \<not> endswith key ''_'') ?kw"
    by (simp add: startswith_def endswith_def)
  have 3: "base_set_params example_externals (attrs example_initialized) [] = Inr (attrs example_initialized)"
    by (simp add: example_externals_def dict_update_def)
  have 4: "\<forall>params. construct example_externals Module params = None \<and>
             construct example_externals Optimizer params = None"
    by (simp add: example_externals_def)
  have 5: "Module \<in> set (built example_initialized)"
    by (simp add: example_initialized_def)
  have 6: "map_of (attrs example_initialized) ''lr'' \<noteq> None"
    by (simp add: example_initialized_def declared_fields_def example_values_def)
  have b: "built example_initialized = [Callbacks, Criterion, Module, Optimizer, History]"
    by (simp add: example_initialized_def)
  from set_params_rebuilds[of example_externals example_initialized ?kw] 1 2 3 4 5 6
  have "\<exists>m. set_params example_externals example_initialized ?kw = Inr m \<and>
        built m = built example_initialized @ [Module, Optimizer]"
    by blast
  with 1 2 3 4 5 6 show ?thesis unfolding b by simp
qed

section \<open>Claims about datasets\<close>








text \<open>
  The claim as stated fails for a negative length: construction succeeds, and
  \<open>len(dataset)\<close> raises a \<open>ValueError\<close> instead of returning the length given.
\<close>

theorem dataset_length_counterexample:
  "Dataset_init flatten_lens (Array 3) (Some (Array 3)) ''cpu'' (Some (- 1)) =
     Inr \<lparr>ds_X = Array 3, ds_y = Some (Array 3), ds_device = ''cpu'', ds_len = - 1\<rparr> \<and>
   len_dataset \<lparr>ds_X = Array 3, ds_y = Some (Array 3), ds_device = ''cpu'', ds_len = - 1\<rparr> =
     Inl (ValueError ''__len__() should return >= 0'')"
  by (simp add: Dataset_init_def len_dataset_def Dataset_len_def len_builtin_def)



text \<open>
  The claim as stated fails for a target whose indexed row is \<open>None\<close>: the target is
  not \<open>None\<close>, and the target returned is the placeholder.
\<close>

theorem dataset_getitem_target_counterexample:
  "ds_y example_none_target = Some (Array 2) \<and>
   multi_indexing none_rows (Array 2) (IInt 1) = Inr None \<and>
   Dataset_getitem none_rows example_none_target (IInt 1)
     = Inr ((Some (Tensor [3, 4]), ''cpu''), (Some (Tensor [0]), ''cpu''))"
  by (simp add: example_none_target_def none_rows_def example_utils_def Dataset_getitem_def
        transform_def placeholder_def and_then_def seq_getitem_def)

section \<open>Lemmas about training\<close>

lemma addsI:
  assumes "\<And>s. \<exists>added. trace (snd (f s)) = trace s @ added \<and> list_all P added"
  shows "adds P f"
  using assms by (simp add: adds_def)

lemma addsD:
  assumes "adds P f"
  obtains added where "trace (snd (f s)) = trace s @ added" "list_all P added"
  using assms unfolding adds_def by blast

lemma adds_mono: "adds P f \<Longrightarrow> (\<And>a. P a \<Longrightarrow> Q a) \<Longrightarrow> adds Q f"
  unfolding adds_def list_all_iff by blast

lemma adds_skip: "adds P skip"
  by (rule addsI) (simp add: skip_def)

lemma adds_raise: "adds P (\<lambda>s. (Some e, s))"
  by (rule addsI) simp

lemma adds_mark: "P a \<Longrightarrow> adds P (mark a)"
  by (rule addsI) (simp add: mark_def)

lemma adds_perform: "P a \<Longrightarrow> adds P (perform w a)"
  by (rule addsI) (simp add: perform_def)

lemma adds_history_step: "adds P (history_step f)"
  by (rule addsI) (auto simp: history_step_def split: option.splits arg.splits val.splits sum.splits)

lemma adds_net_step: "adds P (net_step f)"
  by (rule addsI) (auto simp: net_step_def split: sum.splits)

lemma adds_then_do:
  assumes "adds P f" "adds P g"
  shows "adds P (then_do f g)"
proof (rule addsI)
  fix s :: fstate
  obtain r s' where f: "f s = (r, s')" by (cases "f s")
  from assms(1) obtain a1 where a1: "trace (snd (f s)) = trace s @ a1" "list_all P a1"
    by (rule addsD)
  show "\<exists>added. trace (snd (then_do f g s)) = trace s @ added \<and> list_all P added"
  proof (cases r)
    case None
    from assms(2) obtain a2 where a2: "trace (snd (g s')) = trace s' @ a2" "list_all P a2"
      by (rule addsD)
    with a1 f None have "trace (snd (then_do f g s)) = trace s @ (a1 @ a2) \<and> list_all P (a1 @ a2)"
      by (simp add: then_do_def)
    then show ?thesis by blast
  next
    case (Some e)
    with a1 f show ?thesis by (auto simp: then_do_def)
  qed
qed

lemma adds_for_each:
  assumes "\<And>x. adds P (f x)"
  shows "adds P (for_each xs f)"
proof (induction xs)
  case Nil
  show ?case by (rule addsI) simp
next
  case (Cons x xs)
  have "for_each (x # xs) f = then_do (f x) (for_each xs f)" by (rule ext) simp
  with adds_then_do[OF assms[of x] Cons] show ?case by simp
qed

lemma adds_own_hook: "adds P (own_hook h)"
  by (cases h) (simp_all add: adds_then_do adds_history_step adds_skip)

lemma adds_notify:
  assumes "P (Notify h)" "\<And>name. P (CallbackHook name h)"
  shows "adds P (notify w h)"
proof -
  have "adds P (\<lambda>s. for_each (callbacks_attr (net_of s)) (\<lambda>(name, cb). perform w (CallbackHook name h)) s)"
  proof (rule addsI)
    fix s :: fstate
    have "adds P (for_each (callbacks_attr (net_of s)) (\<lambda>(name, cb). perform w (CallbackHook name h)))"
      by (rule adds_for_each) (auto intro: adds_perform assms(2) split: prod.splits)
    then show "\<exists>added. trace (snd (for_each (callbacks_attr (net_of s))
          (\<lambda>(name, cb). perform w (CallbackHook name h)) s)) = trace s @ added \<and> list_all P added"
      by (rule addsD) blast
  qed
  then show ?thesis
    unfolding notify_def by (intro adds_then_do adds_mark adds_own_hook assms(1))
qed

lemma adds_record_batch_size: "adds P (record_batch_size attr xi)"
proof (rule addsI)
  fix s :: fstate
  show "\<exists>added. trace (snd (record_batch_size attr xi s)) = trace s @ added \<and> list_all P added"
  proof (cases "py_len xi")
    case (Inl e)
    then show ?thesis by (simp add: record_batch_size_def)
  next
    case (Inr k)
    have "adds P (history_step (\<lambda>h. record_batch h attr (Num (int k))))"
      by (rule adds_history_step)
    then show ?thesis using Inr by (auto simp: record_batch_size_def elim: addsD)
  qed
qed

lemma adds_state_dependent:
  assumes "\<And>t. adds P (f t)"
  shows "adds P (\<lambda>s. f (g s) s)"
proof (rule addsI)
  fix s :: fstate
  from assms[of "g s"] show "\<exists>added. trace (snd (f (g s) s)) = trace s @ added \<and> list_all P added"
    by (rule addsD) blast
qed

lemma adds_train_batch:
  assumes "b \<in> set (iterator_call w (fst train) (snd train) True)"
  shows "adds (fit_action w train valid) (train_batch w b)"
proof -
  obtain xi yi where b: "b = (xi, yi)" by (cases b)
  have "adds (fit_action w train valid)
          (\<lambda>s. history_step (\<lambda>h. record_batch h ''train_loss'' (loss_value w (trace s))) s)"
    by (rule adds_state_dependent[where g = trace and
          f = "\<lambda>t. history_step (\<lambda>h. record_batch h ''train_loss'' (loss_value w t))"])
       (rule adds_history_step)
  with assms b show ?thesis
    unfolding train_batch_def b prod.case
    by (intro adds_then_do adds_notify adds_perform adds_record_batch_size) simp_all
qed

lemma adds_valid_batch:
  assumes "b \<in> set (iterator_call w Xv yv False)" "Xv \<noteq> PNone"
  shows "adds (fit_action w train (Some (Xv, yv))) (valid_batch w b)"
proof -
  obtain xi yi where b: "b = (xi, yi)" by (cases b)
  have "adds (fit_action w train (Some (Xv, yv)))
          (\<lambda>s. history_step (\<lambda>h. record_batch h ''valid_loss'' (loss_value w (trace s))) s)"
    by (rule adds_state_dependent[where g = trace and
          f = "\<lambda>t. history_step (\<lambda>h. record_batch h ''valid_loss'' (loss_value w t))"])
       (rule adds_history_step)
  with assms b show ?thesis
    unfolding valid_batch_def b prod.case
    by (intro adds_then_do adds_notify adds_perform adds_record_batch_size) simp_all
qed

lemma adds_for_each_members:
  assumes "\<And>x. x \<in> set xs \<Longrightarrow> adds P (f x)"
  shows "adds P (for_each xs f)"
  using assms
proof (induction xs)
  case Nil
  show ?case by (rule addsI) simp
next
  case (Cons x xs)
  have "for_each (x # xs) f = then_do (f x) (for_each xs f)" by (rule ext) simp
  moreover have "adds P (f x)" "adds P (for_each xs f)"
    using Cons by simp_all
  ultimately show ?case by (simp add: adds_then_do)
qed

lemma adds_epoch_split:
  "adds (fit_action w train (Some (Xv, yv))) (epoch w train Xv (Some (Xv, yv)))"
  unfolding epoch_def
  by (cases "Xv = PNone")
     (auto intro!: adds_then_do adds_notify adds_perform adds_for_each_members
        adds_train_batch adds_valid_batch)

lemma adds_epoch_whole:
  "adds (fit_action w train None) (epoch w train PNone None)"
  unfolding epoch_def
  by (auto intro!: adds_then_do adds_notify adds_perform adds_for_each_members adds_train_batch)

lemma perform_then:
  assumes "adds P g"
  shows "\<exists>rest. trace (snd (then_do (perform w a) g s)) = trace s @ a # rest \<and> list_all P rest"
proof (cases "raises w (trace s @ [a])")
  case None
  from assms obtain rest where
    "trace (snd (g (s\<lparr>trace := trace s @ [a]\<rparr>))) = trace (s\<lparr>trace := trace s @ [a]\<rparr>) @ rest"
    "list_all P rest"
    by (rule addsD)
  with None show ?thesis by (simp add: then_do_def perform_def)
next
  case (Some e)
  then show ?thesis by (simp add: then_do_def perform_def)
qed

lemma adds_after_split:
  "adds (fit_action w (Xt, yt) (Some (Xv, yv)))
     (then_do (perform w (DatasetCall Xv yv))
       (then_do (perform w (DatasetCall Xt yt))
          (case range_of epochs of
             Inl e \<Rightarrow> (\<lambda>s. (Some e, s))
           | Inr r \<Rightarrow> for_each r (\<lambda>i. epoch w (Xt, yt) Xv (Some (Xv, yv))))))"
  by (cases "range_of epochs")
     (auto intro!: adds_then_do adds_perform adds_for_each adds_epoch_split adds_raise)

lemma adds_whole:
  "adds (fit_action w (X, y) None)
     (case range_of epochs of
        Inl e \<Rightarrow> (\<lambda>s. (Some e, s))
      | Inr r \<Rightarrow> for_each r (\<lambda>i. epoch w (X, y) PNone None))"
  by (cases "range_of epochs") (auto intro!: adds_for_each adds_epoch_whole adds_raise)

lemma fit_loop_split_trace:
  assumes "(case epochs of Some k \<Rightarrow> Inr k | None \<Rightarrow> attr_value s ''max_epochs'') = Inr e"
    and "attr_value s ''train_split'' = Inr v" and "truthy v"
    and "train_split_call w X y = [Xt, Xv, yt, yv]"
  shows "\<exists>rest. trace (snd (fit_loop w X y epochs s)) = trace s @ SplitCall X y # rest \<and>
           list_all (fit_action w (Xt, yt) (Some (Xv, yv))) rest"
proof -
  have "fit_loop w X y epochs s =
      then_do (perform w (SplitCall X y))
        (then_do (perform w (DatasetCall Xv yv))
          (then_do (perform w (DatasetCall Xt yt))
            (case range_of e of
               Inl e \<Rightarrow> (\<lambda>s. (Some e, s))
             | Inr r \<Rightarrow> for_each r (\<lambda>i. epoch w (Xt, yt) Xv (Some (Xv, yv)))))) s"
    using assms by (simp add: fit_loop_def unpack4_def)
  then show ?thesis
    using perform_then[OF adds_after_split, where a = "SplitCall X y" and s = s] by simp
qed

lemma unpack4_bad: "length t \<noteq> 4 \<Longrightarrow> \<exists>msg. unpack4 t = Inl (ValueError msg)"
  by (auto simp: unpack4_def split: list.split)

lemma fit_loop_bad_tuple:
  assumes "(case epochs of Some k \<Rightarrow> Inr k | None \<Rightarrow> attr_value s ''max_epochs'') = Inr e"
    and "attr_value s ''train_split'' = Inr v" and "truthy v"
    and "length (train_split_call w X y) \<noteq> 4"
  shows "fst (fit_loop w X y epochs s) \<noteq> None \<and>
         trace (snd (fit_loop w X y epochs s)) = trace s @ [SplitCall X y] \<and>
         (raises w (trace s @ [SplitCall X y]) = None \<longrightarrow>
            (\<exists>msg. fst (fit_loop w X y epochs s) = Some (ValueError msg)))"
proof -
  from unpack4_bad[OF assms(4)] obtain e' where
    "unpack4 (train_split_call w X y) = Inl (ValueError e')" by blast
  with assms show ?thesis
    by (cases "raises w (trace s @ [SplitCall X y])")
       (simp_all add: fit_loop_def then_do_def perform_def)
qed

lemma fit_loop_whole_trace:
  assumes "(case epochs of Some k \<Rightarrow> Inr k | None \<Rightarrow> attr_value s ''max_epochs'') = Inr e"
    and "attr_value s ''train_split'' = Inr v" and "\<not> truthy v"
  shows "\<exists>rest. trace (snd (fit_loop w X y epochs s)) = trace s @ DatasetCall X y # rest \<and>
           list_all (fit_action w (X, y) None) rest"
proof -
  have "fit_loop w X y epochs s =
      then_do (perform w (DatasetCall X y))
        (case range_of e of
           Inl e \<Rightarrow> (\<lambda>s. (Some e, s))
         | Inr r \<Rightarrow> for_each r (\<lambda>i. epoch w (X, y) PNone None)) s"
    using assms by (simp add: fit_loop_def)
  then show ?thesis
    using perform_then[OF adds_whole, where a = "DatasetCall X y" and s = s] by simp
qed

lemma fit_action_not_train_hook:
  "fit_action w train valid a \<Longrightarrow> a \<noteq> Notify on_train_begin \<and> a \<noteq> Notify on_train_end"
  by (cases a) auto

lemma fit_loop_no_train_hook:
  "adds (\<lambda>a. a \<noteq> Notify on_train_begin \<and> a \<noteq> Notify on_train_end) (fit_loop w X y epochs)"
proof (rule addsI)
  fix s :: fstate
  let ?P = "\<lambda>a. a \<noteq> Notify on_train_begin \<and> a \<noteq> Notify on_train_end"
  let ?E = "case epochs of Some k \<Rightarrow> Inr k | None \<Rightarrow> attr_value s ''max_epochs''"
  show "\<exists>added. trace (snd (fit_loop w X y epochs s)) = trace s @ added \<and> list_all ?P added"
  proof (cases ?E)
    case (Inl e)
    then show ?thesis by (simp add: fit_loop_def)
  next
    case E: (Inr e)
    show ?thesis
    proof (cases "attr_value s ''train_split''")
      case (Inl e')
      with E show ?thesis by (simp add: fit_loop_def)
    next
      case (Inr v)
      show ?thesis
      proof (cases "truthy v")
        case False
        from fit_loop_whole_trace[OF E Inr False, of w X y] obtain rest where
          "trace (snd (fit_loop w X y epochs s)) = trace s @ DatasetCall X y # rest"
          "list_all (fit_action w (X, y) None) rest" by blast
        then show ?thesis
          by (auto simp: list_all_iff dest: fit_action_not_train_hook)
      next
        case True
        show ?thesis
        proof (cases "length (train_split_call w X y) = 4")
          case False
          from fit_loop_bad_tuple[OF E Inr True False] show ?thesis by simp
        next
          case len: True
          then obtain Xt Xv yt yv where "train_split_call w X y = [Xt, Xv, yt, yv]"
            by (auto simp: length_Suc_conv numeral_eq_Suc)
          from fit_loop_split_trace[OF E Inr True this] obtain rest where
            "trace (snd (fit_loop w X y epochs s)) = trace s @ SplitCall X y # rest"
            "list_all (fit_action w (Xt, yt) (Some (Xv, yv))) rest" by blast
          then show ?thesis
            by (auto simp: list_all_iff dest: fit_action_not_train_hook)
        qed
      qed
    qed
  qed
qed

lemma callback_hooks_raise:
  "fst (for_each cbs (\<lambda>(name, cb). perform w (CallbackHook name h)) s) = Some e \<Longrightarrow>
   \<exists>tr name. raises w (tr @ [CallbackHook name h]) = Some e"
proof (induction cbs arbitrary: s)
  case (Cons c cbs)
  obtain name cb where c: "c = (name, cb)" by (cases c)
  show ?case
  proof (cases "raises w (trace s @ [CallbackHook name h])")
    case None
    then have "perform w (CallbackHook name h) s
        = (None, s\<lparr>trace := trace s @ [CallbackHook name h]\<rparr>)"
      by (simp add: perform_def)
    with Cons.prems c have
      "fst (for_each cbs (\<lambda>(name, cb). perform w (CallbackHook name h))
              (s\<lparr>trace := trace s @ [CallbackHook name h]\<rparr>)) = Some e"
      by (simp add: then_do_def)
    then show ?thesis by (rule Cons.IH)
  next
    case (Some e')
    then have "perform w (CallbackHook name h) s
        = (Some e', s\<lparr>trace := trace s @ [CallbackHook name h]\<rparr>)"
      by (simp add: perform_def)
    with Cons.prems c have "e' = e" by (simp add: then_do_def)
    with Some show ?thesis by blast
  qed
qed simp

lemma notify_train_end:
  "\<exists>rest. trace (snd (notify w on_train_end s)) = trace s @ Notify on_train_end # rest"
  "fst (notify w on_train_end s) = Some e \<Longrightarrow>
     \<exists>tr name. raises w (tr @ [CallbackHook name on_train_end]) = Some e"
proof -
  let ?hooks = "\<lambda>s. for_each (callbacks_attr (net_of s))
                   (\<lambda>(name, cb). perform w (CallbackHook name on_train_end)) s"
  have eq: "notify w on_train_end s = ?hooks (s\<lparr>trace := trace s @ [Notify on_train_end]\<rparr>)"
    by (simp add: notify_def then_do_def mark_def skip_def)
  have "adds (\<lambda>a. True) ?hooks"
    by (rule adds_state_dependent[where f = "\<lambda>cbs. for_each cbs
          (\<lambda>(name, cb). perform w (CallbackHook name on_train_end))"])
       (auto intro!: adds_for_each adds_perform)
  then obtain rest where
    "trace (snd (?hooks (s\<lparr>trace := trace s @ [Notify on_train_end]\<rparr>)))
       = trace (s\<lparr>trace := trace s @ [Notify on_train_end]\<rparr>) @ rest"
    by (rule addsD)
  then show "\<exists>rest. trace (snd (notify w on_train_end s)) = trace s @ Notify on_train_end # rest"
    unfolding eq by simp
  show "\<exists>tr name. raises w (tr @ [CallbackHook name on_train_end]) = Some e"
    if "fst (notify w on_train_end s) = Some e"
    using that unfolding eq by (rule callback_hooks_raise)
qed

lemma count_list_append: "count_list (xs @ ys) a = count_list xs a + count_list ys a"
  by (induction xs) simp_all

lemma count_list_absent: "list_all (\<lambda>b. b \<noteq> a) xs \<Longrightarrow> count_list xs a = 0"
  by (induction xs) auto

section \<open>Claims about training\<close>

text \<open>
  Claim C2, as the code has it. Take an initialized estimator whose
  \<open>on_train_begin\<close> notification passes, and let the fit loop end in \<open>r\<close>. When the
  loop completes or is interrupted (\<open>KeyboardInterrupt\<close>), \<open>partial_fit\<close> goes on to
  the \<open>on_train_end\<close> notification: the interrupt does not reach the caller, and an
  exception \<open>partial_fit\<close> then ends in was raised by the \<open>on_train_end\<close> hook of a
  callback. When the loop raises any other exception, \<open>partial_fit\<close> ends in that
  exception in the state the loop left, and no \<open>on_train_end\<close> notification was
  emitted.
\<close>

theorem interrupt_swallowed:
  assumes "attr_value s ''initialized_'' = Inr v" and "truthy v"
    and "notify w on_train_begin s = (None, s1)"
    and "fit_loop w X y None s1 = (r, s2)"
  shows "(if r = None \<or> r = Some KeyboardInterrupt
          then partial_fit w X y s = notify w on_train_end s2 \<and>
               (\<exists>rest. trace (snd (partial_fit w X y s)) = trace s2 @ Notify on_train_end # rest) \<and>
               (\<forall>e. fst (partial_fit w X y s) = Some e \<longrightarrow>
                  (\<exists>tr name. raises w (tr @ [CallbackHook name on_train_end]) = Some e))
          else partial_fit w X y s = (r, s2) \<and>
               count_list (trace (snd (partial_fit w X y s))) (Notify on_train_end) =
                 count_list (trace s) (Notify on_train_end))"
proof -
  have pf: "partial_fit w X y s =
      then_do (except_KeyboardInterrupt (fit_loop w X y None)) (notify w on_train_end) s1"
    using assms(1-3) by (simp add: partial_fit_def then_do_def skip_def)
  show ?thesis
  proof (cases "r = None \<or> r = Some KeyboardInterrupt")
    case True
    then have eq: "partial_fit w X y s = notify w on_train_end s2"
      using assms(4) by (auto simp: pf then_do_def except_KeyboardInterrupt_def)
    from notify_train_end(1)[of w s2] eq
    have tr: "\<exists>rest. trace (snd (partial_fit w X y s)) = trace s2 @ Notify on_train_end # rest"
      by simp
    have "\<forall>e. fst (partial_fit w X y s) = Some e \<longrightarrow>
          (\<exists>tr name. raises w (tr @ [CallbackHook name on_train_end]) = Some e)"
      using notify_train_end(2)[of w s2] eq by simp
    with True eq tr show ?thesis by (simp only: if_True simp_thms)
  next
    case False
    then obtain e where r: "r = Some e" "e \<noteq> KeyboardInterrupt" by (cases r) auto
    then have eq: "partial_fit w X y s = (r, s2)"
      using assms(4) by (cases e) (simp_all add: pf then_do_def except_KeyboardInterrupt_def)
    have "adds (\<lambda>a. a \<noteq> Notify on_train_end) (notify w on_train_begin)"
      by (rule adds_notify) simp_all
    then obtain a1 where a1: "trace (snd (notify w on_train_begin s)) = trace s @ a1"
      "list_all (\<lambda>a. a \<noteq> Notify on_train_end) a1" by (rule addsD)
    have "adds (\<lambda>a. a \<noteq> Notify on_train_end) (fit_loop w X y None)"
      by (rule adds_mono[OF fit_loop_no_train_hook]) simp
    then obtain a2 where a2: "trace (snd (fit_loop w X y None s1)) = trace s1 @ a2"
      "list_all (\<lambda>a. a \<noteq> Notify on_train_end) a2" by (rule addsD)
    from a1 a2 assms(3,4) have "trace s2 = trace s @ a1 @ a2" by simp
    with a1(2) a2(2) have "count_list (trace s2) (Notify on_train_end) =
        count_list (trace s) (Notify on_train_end)"
      by (simp add: count_list_append count_list_absent)
    with False eq show ?thesis by simp
  qed
qed

theorem interrupt_swallowed_witness:
  "attr_value example_fstate ''initialized_'' = Inr (VBool True) \<and> truthy (VBool True) \<and>
   fst (notify (example_world (Some KeyboardInterrupt)) on_train_begin example_fstate) = None \<and>
   fst (fit_loop (example_world (Some KeyboardInterrupt)) example_X PNone None
          (snd (notify (example_world (Some KeyboardInterrupt)) on_train_begin example_fstate)))
     = Some KeyboardInterrupt \<and>
   partial_fit (example_world (Some KeyboardInterrupt)) example_X PNone example_fstate =
     notify (example_world (Some KeyboardInterrupt)) on_train_end
       (snd (fit_loop (example_world (Some KeyboardInterrupt)) example_X PNone None
          (snd (notify (example_world (Some KeyboardInterrupt)) on_train_begin example_fstate)))) \<and>
   fst (partial_fit (example_world (Some KeyboardInterrupt)) example_X PNone example_fstate) = None \<and>
   fst (notify (example_world (Some TypeError)) on_train_begin example_fstate) = None \<and>
   fst (fit_loop (example_world (Some TypeError)) example_X PNone None
          (snd (notify (example_world (Some TypeError)) on_train_begin example_fstate)))
     = Some TypeError \<and>
   partial_fit (example_world (Some TypeError)) example_X PNone example_fstate =
     (Some TypeError,
      snd (fit_loop (example_world (Some TypeError)) example_X PNone None
          (snd (notify (example_world (Some TypeError)) on_train_begin example_fstate))))"
proof -
  let ?wK = "example_world (Some KeyboardInterrupt)"
  let ?wT = "example_world (Some TypeError)"
  let ?s1K = "snd (notify ?wK on_train_begin example_fstate)"
  let ?s1T = "snd (notify ?wT on_train_begin example_fstate)"
  have i: "attr_value example_fstate ''initialized_'' = Inr (VBool True)" by code_simp
  have t: "truthy (VBool True)" by simp
  have bK: "fst (notify ?wK on_train_begin example_fstate) = None" by code_simp
  have bT: "fst (notify ?wT on_train_begin example_fstate) = None" by code_simp
  have lK: "fst (fit_loop ?wK example_X PNone None ?s1K) = Some KeyboardInterrupt" by code_simp
  have lT: "fst (fit_loop ?wT example_X PNone None ?s1T) = Some TypeError" by code_simp
  have eK: "fst (partial_fit ?wK example_X PNone example_fstate) = None" by code_simp
  from bK have nK: "notify ?wK on_train_begin example_fstate = (None, ?s1K)"
    by (simp add: prod_eq_iff)
  from bT have nT: "notify ?wT on_train_begin example_fstate = (None, ?s1T)"
    by (simp add: prod_eq_iff)
  from lK have fK: "fit_loop ?wK example_X PNone None ?s1K
      = (Some KeyboardInterrupt, snd (fit_loop ?wK example_X PNone None ?s1K))"
    by (simp add: prod_eq_iff)
  from lT have fT: "fit_loop ?wT example_X PNone None ?s1T
      = (Some TypeError, snd (fit_loop ?wT example_X PNone None ?s1T))"
    by (simp add: prod_eq_iff)
  from interrupt_swallowed[OF i t nK fK]
  have K: "partial_fit ?wK example_X PNone example_fstate =
     notify ?wK on_train_end (snd (fit_loop ?wK example_X PNone None ?s1K))"
    by simp
  from interrupt_swallowed[OF i t nT fT]
  have T: "partial_fit ?wT example_X PNone example_fstate =
     (Some TypeError, snd (fit_loop ?wT example_X PNone None ?s1T))"
    by simp
  from i t bK lK K eK bT lT T show ?thesis by (intro conjI)
qed

text \<open>
  The claim as stated fails when a training step raises a \<open>ValueError\<close>: it reaches the
  caller of \<open>partial_fit\<close> and no \<open>on_train_end\<close> notification is emitted.
\<close>

theorem interrupt_swallowed_counterexample:
  "fst (partial_fit (example_world (Some (ValueError ''boom''))) example_X PNone example_fstate)
     = Some (ValueError ''boom'') \<and>
   Notify on_train_end \<notin>
     set (trace (snd (partial_fit (example_world (Some (ValueError ''boom''))) example_X PNone
            example_fstate)))"
  by code_simp







end
